theory Spec2Isabelle
  imports Main
begin

section \<open>Raster images\<close>

text \<open>
  The scripts use four operations of the imaging library: open a file, read the size,
  crop a rectangle and save as PNG. An image is its size and its rows of pixels, top row
  first. Sizes are Python integers.
\<close>

record 'p image =
  width :: int
  height :: int
  pixels :: "'p list list"

definition wf_image :: "'p image \<Rightarrow> bool" where
  "wf_image img \<longleftrightarrow>
     0 \<le> width img \<and> 0 \<le> height img \<and>
     length (pixels img) = nat (height img) \<and>
     list_all (\<lambda>row. length row = nat (width img)) (pixels img)"

text \<open>The pixel at column \<open>x\<close>, row \<open>y\<close>; there is none outside the image.\<close>

definition pixel_at :: "'p image \<Rightarrow> int \<times> int \<Rightarrow> 'p option" where
  "pixel_at img xy =
     (case xy of (x, y) \<Rightarrow>
        if 0 \<le> x \<and> x < width img \<and> 0 \<le> y \<and> y < height img
        then Some (pixels img ! nat y ! nat x) else None)"

text \<open>
  \<open>img.crop((left, upper, right, lower))\<close>: the result is \<open>right - left\<close> wide and
  \<open>lower - upper\<close> high; its pixel \<open>(x, y)\<close> is the source pixel
  \<open>(left + x, upper + y)\<close>, and zero where the box leaves the source.
\<close>

definition crop :: "('p::zero) image \<Rightarrow> int \<times> int \<times> int \<times> int \<Rightarrow> 'p image" where
  "crop img box =
     (case box of (left, upper, right, lower) \<Rightarrow>
        \<lparr>width = right - left, height = lower - upper,
         pixels = map (\<lambda>y. map (\<lambda>x. case pixel_at img (x, y) of Some p \<Rightarrow> p | None \<Rightarrow> 0)
                                [left..right - 1])
                      [upper..lower - 1]\<rparr>)"

text \<open>The set of source coordinates inside a box (left and upper edge included).\<close>

definition region :: "int \<times> int \<times> int \<times> int \<Rightarrow> (int \<times> int) set" where
  "region box =
     (case box of (left, upper, right, lower) \<Rightarrow>
        {(x, y). left \<le> x \<and> x < right \<and> upper \<le> y \<and> y < lower})"

section \<open>Paths\<close>

text \<open>POSIX \<open>os.path.join\<close> of two components, \<open>os.path.dirname\<close>, and a trailing-separator strip.\<close>

definition sep :: char where
  "sep = CHR ''/''"

definition strip_sep :: "string \<Rightarrow> string" where
  "strip_sep p = (if list_all (\<lambda>c. c = sep) p then p else rev (dropWhile (\<lambda>c. c = sep) (rev p)))"

definition path_join :: "string \<Rightarrow> string \<Rightarrow> string" where
  "path_join a b =
     (if b \<noteq> [] \<and> hd b = sep then b
      else if a = [] \<or> last a = sep then a @ b
      else a @ sep # b)"

definition dirname :: "string \<Rightarrow> string" where
  "dirname p = strip_sep (rev (dropWhile (\<lambda>c. c \<noteq> sep) (rev p)))"

section \<open>Formatting integers\<close>

text \<open>\<open>str\<close> of a Python integer, as the f-string \<open>f'square_{j}_{i}.png'\<close> renders it.\<close>

definition digit_char :: "nat \<Rightarrow> char" where
  "digit_char d = ''0123456789'' ! d"

fun digits :: "nat \<Rightarrow> string" where
  "digits n = (if n < 10 then [digit_char n] else digits (n div 10) @ [digit_char (n mod 10)])"

declare digits.simps [simp del]

definition str :: "int \<Rightarrow> string" where
  "str n = (if n < 0 then CHR ''-'' # digits (nat (- n)) else digits (nat n))"

definition file_name :: "int \<Rightarrow> int \<Rightarrow> string" where
  "file_name j i = ''square_'' @ str j @ ''_'' @ str i @ ''.png''"

text \<open>Reading a decimal string back, used to state that \<open>str\<close> is plain decimal.\<close>

definition digit_val :: "char \<Rightarrow> nat option" where
  "digit_val c = (let k = (of_char c :: nat) in if 48 \<le> k \<and> k \<le> 57 then Some (k - 48) else None)"

section \<open>The file system and the console\<close>

text \<open>
  The world the scripts act on: the file system, the paths at which the operating system
  refuses to create or write (permissions), and the trace of the effects performed so far,
  oldest first. A regular file either decodes to an image or does not. Path strings are
  compared as written once trailing separators are removed; \<open>.\<close>, \<open>..\<close>, doubled
  separators and links are not interpreted, and ancestors of a created directory are not
  tracked (a refusal caused by an ancestor is part of \<open>denied\<close>).
\<close>

datatype error =
    FileNotFoundError
  | IsADirectoryError
  | NotADirectoryError
  | FileExistsError
  | PermissionError
  | UnidentifiedImageError
  | ZeroDivisionError
  | ValueError
  | SystemExit int

datatype 'p node = Directory | ImageFile "'p image" | OtherFile

datatype 'p event = MakeDirs string | Save string "'p image" | Print string

record 'p world =
  nodes :: "string \<rightharpoonup> 'p node"
  denied :: "string list"
  trace :: "'p event list"

text \<open>\<open>Image.open(fp)\<close> followed by the decoding that the first \<open>crop\<close> triggers.\<close>

definition image_open :: "string \<Rightarrow> 'p world \<Rightarrow> error + 'p image" where
  "image_open fp w =
     (case nodes w fp of
        None \<Rightarrow> Inl FileNotFoundError
      | Some Directory \<Rightarrow> Inl IsADirectoryError
      | Some OtherFile \<Rightarrow> Inl UnidentifiedImageError
      | Some (ImageFile img) \<Rightarrow> if wf_image img then Inr img else Inl UnidentifiedImageError)"

text \<open>\<open>os.path.exists\<close>: true of directories and of regular files alike.\<close>

definition path_exists :: "string \<Rightarrow> 'p world \<Rightarrow> bool" where
  "path_exists p w =
     (p \<noteq> [] \<and>
      (case nodes w (strip_sep p) of
         None \<Rightarrow> False
       | Some Directory \<Rightarrow> True
       | Some _ \<Rightarrow> strip_sep p = p))"

definition isdir :: "string \<Rightarrow> 'p world \<Rightarrow> bool" where
  "isdir p w \<longleftrightarrow> p \<noteq> [] \<and> nodes w (strip_sep p) = Some Directory"

definition makedirs :: "string \<Rightarrow> 'p world \<Rightarrow> (error + unit) \<times> 'p world" where
  "makedirs p w =
     (if p = [] then (Inl FileNotFoundError, w)
      else if nodes w (strip_sep p) \<noteq> None then (Inl FileExistsError, w)
      else if strip_sep p \<in> set (denied w) then (Inl PermissionError, w)
      else (Inr (), w\<lparr>nodes := (nodes w)(strip_sep p \<mapsto> Directory),
                      trace := trace w @ [MakeDirs p]\<rparr>))"

text \<open>\<open>square.save(path)\<close>: opens \<open>path\<close> for writing and stores the encoded image.
  PNG is lossless, so a file is identified with the image it decodes to; the pixel type
  stands for a mode that PNG can store.\<close>

definition save :: "'p image \<Rightarrow> string \<Rightarrow> 'p world \<Rightarrow> (error + unit) \<times> 'p world" where
  "save img p w =
     (if dirname p \<noteq> [] \<and> nodes w (dirname p) = None then (Inl FileNotFoundError, w)
      else if dirname p \<noteq> [] \<and> nodes w (dirname p) \<noteq> Some Directory then (Inl NotADirectoryError, w)
      else if nodes w p = Some Directory then (Inl IsADirectoryError, w)
      else if p \<in> set (denied w) then (Inl PermissionError, w)
      else (Inr (), w\<lparr>nodes := (nodes w)(p \<mapsto> ImageFile img),
                      trace := trace w @ [Save p img]\<rparr>))"

definition print :: "string \<Rightarrow> 'p world \<Rightarrow> (error + unit) \<times> 'p world" where
  "print s w = (Inr (), w\<lparr>trace := trace w @ [Print s]\<rparr>)"

section \<open>Loops\<close>

text \<open>\<open>range(n)\<close> and a \<open>for\<close> loop whose body may raise: the first error ends the loop,
  and the effects performed before it stay.\<close>

definition py_range :: "int \<Rightarrow> int list" where
  "py_range n = [0..n - 1]"

fun for_each :: "('a \<Rightarrow> 'w \<Rightarrow> (error + unit) \<times> 'w) \<Rightarrow> 'a list \<Rightarrow> 'w \<Rightarrow> (error + unit) \<times> 'w" where
  "for_each body [] w = (Inr (), w)"
| "for_each body (x # xs) w =
     (case body x w of
        (Inl e, w') \<Rightarrow> (Inl e, w')
      | (Inr _, w') \<Rightarrow> for_each body xs w')"

section \<open>The tiler\<close>

text \<open>The four edges computed in the loop body, for row \<open>j\<close> and column \<open>i\<close>.\<close>

definition square_box :: "int \<Rightarrow> int \<Rightarrow> int \<Rightarrow> int \<times> int \<times> int \<times> int" where
  "square_box square_size j i =
     (let left = i * square_size;
          top = j * square_size;
          right = left + square_size;
          bottom = top + square_size
      in (left, top, right, bottom))"

text \<open>\<open>Crop Images Into Squares/crop_image.py\<close>: the function of the interactive script.\<close>

definition cut_image_into_squares ::
    "string \<Rightarrow> int \<Rightarrow> string \<Rightarrow> ('p::zero) world \<Rightarrow> (error + unit) \<times> 'p world" where
  "cut_image_into_squares image_png square_size destination_folder w =
     (case image_open image_png w of
        Inl e \<Rightarrow> (Inl e, w)
      | Inr img \<Rightarrow>
          if square_size = 0 then (Inl ZeroDivisionError, w)
          else
            let number_squares_horizontal = width img div square_size;
                number_squares_vertical = height img div square_size
            in (case (if \<not> path_exists destination_folder w
                      then makedirs destination_folder w else (Inr (), w)) of
                  (Inl e, w1) \<Rightarrow> (Inl e, w1)
                | (Inr _, w1) \<Rightarrow>
                    for_each (\<lambda>j.
                      for_each (\<lambda>i.
                        save (crop img (square_box square_size j i))
                             (path_join destination_folder (file_name j i)))
                        (py_range number_squares_horizontal))
                      (py_range number_squares_vertical) w1))"

text \<open>\<open>Python/crop_image.py\<close>: the function of the argument-driven script, which ends
  with a message.\<close>

definition success_message :: string where
  "success_message = ''Images successfully applied to folder.''"

definition cut_image_into_squares_argv ::
    "string \<Rightarrow> int \<Rightarrow> string \<Rightarrow> ('p::zero) world \<Rightarrow> (error + unit) \<times> 'p world" where
  "cut_image_into_squares_argv image_png square_size destination_folder w =
     (case image_open image_png w of
        Inl e \<Rightarrow> (Inl e, w)
      | Inr img \<Rightarrow>
          if square_size = 0 then (Inl ZeroDivisionError, w)
          else
            let number_squares_horizontal = width img div square_size;
                number_squares_vertical = height img div square_size
            in (case (if \<not> path_exists destination_folder w
                      then makedirs destination_folder w else (Inr (), w)) of
                  (Inl e, w1) \<Rightarrow> (Inl e, w1)
                | (Inr _, w1) \<Rightarrow>
                   (case for_each (\<lambda>j.
                           for_each (\<lambda>i.
                             save (crop img (square_box square_size j i))
                                  (path_join destination_folder (file_name j i)))
                             (py_range number_squares_horizontal))
                           (py_range number_squares_vertical) w1 of
                      (Inl e, w2) \<Rightarrow> (Inl e, w2)
                    | (Inr _, w2) \<Rightarrow> print success_message w2)))"

section \<open>The argument-driven entry point\<close>

text \<open>\<open>int(s)\<close> on ASCII input: surrounding white space, an optional sign, decimal digits
  with single underscores between them.\<close>

definition is_space :: "char \<Rightarrow> bool" where
  "is_space c \<longleftrightarrow> c \<in> set [CHR '' '', CHR 0x09, CHR 0x0A, CHR 0x0B, CHR 0x0C, CHR 0x0D]"

fun parse_digits :: "string \<Rightarrow> nat \<Rightarrow> nat option" where
  "parse_digits [] acc = Some acc"
| "parse_digits (c # cs) acc =
     (if c = CHR ''_''
      then (case cs of
              [] \<Rightarrow> None
            | d # _ \<Rightarrow> if digit_val d = None then None else parse_digits cs acc)
      else (case digit_val c of
              None \<Rightarrow> None
            | Some d \<Rightarrow> parse_digits cs (10 * acc + d)))"

definition int_of_str :: "string \<Rightarrow> int option" where
  "int_of_str s =
     (let t = rev (dropWhile is_space (rev (dropWhile is_space s)));
          negative = (t \<noteq> [] \<and> hd t = CHR ''-'');
          body = (if t \<noteq> [] \<and> (hd t = CHR ''-'' \<or> hd t = CHR ''+'') then tl t else t)
      in if body = [] \<or> hd body = CHR ''_'' then None
         else map_option (\<lambda>n. if negative then - int n else int n) (parse_digits body 0))"

definition usage_message :: string where
  "usage_message = ''Usage: script.py <image_path> <square_size> <destination_folder>''"

definition main :: "string list \<Rightarrow> ('p::zero) world \<Rightarrow> (error + unit) \<times> 'p world" where
  "main argv w =
     (if length argv \<noteq> 4
      then (Inl (SystemExit 1), snd (print usage_message w))
      else
        let image_path = argv ! 1 in
        (case int_of_str (argv ! 2) of
           None \<Rightarrow> (Inl ValueError, w)
         | Some square_size \<Rightarrow>
             let destination_folder = argv ! 3
             in cut_image_into_squares_argv image_path square_size destination_folder w))"

section \<open>Observations on a run\<close>

text \<open>The effects a run added to the trace, and the tile files among them, in order.\<close>

definition new_events :: "'p world \<Rightarrow> 'p world \<Rightarrow> 'p event list" where
  "new_events w w' = drop (length (trace w)) (trace w')"

fun saves :: "'p event list \<Rightarrow> (string \<times> 'p image) list" where
  "saves [] = []"
| "saves (Save p t # es) = (p, t) # saves es"
| "saves (_ # es) = saves es"

section \<open>Tiles of a run\<close>

text \<open>
  The loop body of \<open>cut_image_into_squares\<close> read as functions of the coordinate pair
  \<open>(j, i)\<close>: the path it saves to and the image it saves; the pairs the two loops visit,
  in order; the condition under which \<open>save\<close> does not raise; and the world after the
  directory step.
\<close>

definition tile_path :: "string \<Rightarrow> int \<times> int \<Rightarrow> string" where
  "tile_path dest ji = path_join dest (file_name (fst ji) (snd ji))"

definition tile_image :: "('p::zero) image \<Rightarrow> int \<Rightarrow> int \<times> int \<Rightarrow> 'p image" where
  "tile_image img s ji = crop img (square_box s (fst ji) (snd ji))"

definition grid :: "'p image \<Rightarrow> int \<Rightarrow> (int \<times> int) list" where
  "grid img s = List.product (py_range (height img div s)) (py_range (width img div s))"

definition save_ok :: "'p world \<Rightarrow> string \<Rightarrow> bool" where
  "save_ok w p \<longleftrightarrow>
     (dirname p = [] \<or> nodes w (dirname p) = Some Directory) \<and>
     nodes w p \<noteq> Some Directory \<and> p \<notin> set (denied w)"

definition prepared :: "string \<Rightarrow> 'p world \<Rightarrow> 'p world" where
  "prepared dest w = (if path_exists dest w then w else snd (makedirs dest w))"

definition tile_events :: "('p::zero) image \<Rightarrow> int \<Rightarrow> string \<Rightarrow> 'p event list" where
  "tile_events img s dest = map (\<lambda>ji. Save (tile_path dest ji) (tile_image img s ji)) (grid img s)"

definition tile_files :: "('p::zero) image \<Rightarrow> int \<Rightarrow> string \<Rightarrow> (string \<times> 'p node) list" where
  "tile_files img s dest = map (\<lambda>ji. (tile_path dest ji, ImageFile (tile_image img s ji))) (grid img s)"

definition decimal_value :: "string \<Rightarrow> nat" where
  "decimal_value cs = foldl (\<lambda>a c. 10 * a + (case digit_val c of Some d \<Rightarrow> d | None \<Rightarrow> 0)) 0 cs"

section \<open>A sample sheet\<close>

text \<open>A 5 by 5 sheet whose pixel at column \<open>x\<close>, row \<open>y\<close> is \<open>10 * y + x\<close>, alone in
  an otherwise empty file system, and the world after cutting it into squares of size 2.\<close>

definition sheet :: "nat image" where
  "sheet = \<lparr>width = 5, height = 5,
     pixels = [[0, 1, 2, 3, 4], [10, 11, 12, 13, 14], [20, 21, 22, 23, 24],
               [30, 31, 32, 33, 34], [40, 41, 42, 43, 44]]\<rparr>"

definition studio :: "nat world" where
  "studio = \<lparr>nodes = [''sheet.png'' \<mapsto> ImageFile sheet], denied = [], trace = []\<rparr>"

definition studio_after :: "nat world" where
  "studio_after = snd (cut_image_into_squares ''sheet.png'' 2 ''out'' studio)"

section \<open>Row-major order\<close>

text \<open>The order the specification names: tile \<open>(0, 0)\<close>, \<open>(0, 1)\<close>, ..., \<open>(0, columns - 1)\<close>,
  \<open>(1, 0)\<close>, ..., \<open>(rows - 1, columns - 1)\<close>.\<close>

definition row_major :: "int \<Rightarrow> int \<Rightarrow> (int \<times> int) list" where
  "row_major rows columns =
     concat (map (\<lambda>row. map (\<lambda>col. (row, col)) [0..columns - 1]) [0..rows - 1])"

section \<open>Loops and maps\<close>

lemma for_each_append:
  "for_each body (xs @ ys) w =
     (case for_each body xs w of (Inl e, w') \<Rightarrow> (Inl e, w') | (Inr _, w') \<Rightarrow> for_each body ys w')"
  by (induction xs arbitrary: w) (auto split: prod.splits sum.splits)

lemma for_each_nested:
  "for_each (\<lambda>j. for_each (\<lambda>i. body j i) ys) xs w =
   for_each (\<lambda>ji. body (fst ji) (snd ji)) (List.product xs ys) w"
proof (induction xs arbitrary: w)
  case Nil
  show ?case by simp
next
  case (Cons x xs)
  have inner: "for_each (\<lambda>ji. body (fst ji) (snd ji)) (map (Pair x) ys) v = for_each (body x) ys v" for v
    by (induction ys arbitrary: v) (auto split: prod.splits sum.splits)
  show ?case
    by (simp add: for_each_append inner Cons.IH split: prod.splits sum.splits)
qed

lemma save_cases:
  "save img p w = (if save_ok w p
     then (Inr (), w\<lparr>nodes := (nodes w)(p \<mapsto> ImageFile img), trace := trace w @ [Save p img]\<rparr>)
     else (Inl (if dirname p \<noteq> [] \<and> nodes w (dirname p) = None then FileNotFoundError
                else if dirname p \<noteq> [] \<and> nodes w (dirname p) \<noteq> Some Directory then NotADirectoryError
                else if nodes w p = Some Directory then IsADirectoryError else PermissionError), w))"
  by (auto simp: save_def save_ok_def)

lemma for_each_save_effect:
  assumes "for_each (\<lambda>x. save (g x) (p x)) xs w = (Inr (), w')"
  shows "trace w' = trace w @ map (\<lambda>x. Save (p x) (g x)) xs
       \<and> denied w' = denied w
       \<and> nodes w' = nodes w ++ map_of (rev (map (\<lambda>x. (p x, ImageFile (g x))) xs))"
  using assms
proof (induction xs arbitrary: w)
  case Nil
  then show ?case by simp
next
  case (Cons x xs)
  have ok: "save_ok w (p x)"
  proof (rule ccontr)
    assume "\<not> save_ok w (p x)"
    then have "fst (save (g x) (p x) w) \<noteq> Inr ()" by (simp add: save_cases)
    with Cons.prems show False by (auto split: prod.splits sum.splits)
  qed
  let ?v = "w\<lparr>nodes := (nodes w)(p x \<mapsto> ImageFile (g x)), trace := trace w @ [Save (p x) (g x)]\<rparr>"
  from ok have step: "save (g x) (p x) w = (Inr (), ?v)"
    by (simp add: save_cases)
  from Cons.prems have "for_each (\<lambda>x. save (g x) (p x)) xs ?v = (Inr (), w')"
    by (simp add: step)
  from Cons.IH [OF this]
  have "trace w' = trace ?v @ map (\<lambda>x. Save (p x) (g x)) xs"
    and "denied w' = denied ?v"
    and "nodes w' = nodes ?v ++ map_of (rev (map (\<lambda>x. (p x, ImageFile (g x))) xs))"
    by blast+
  moreover have "nodes ?v = (nodes w)(p x \<mapsto> ImageFile (g x))" by simp
  ultimately show ?case
    by (simp del: fun_upd_apply)
qed

lemma for_each_save_succeeds_iff:
  assumes "\<forall>x\<in>set xs. \<forall>y\<in>set xs. dirname (p x) \<noteq> p y"
  shows "fst (for_each (\<lambda>x. save (g x) (p x)) xs w) = Inr () \<longleftrightarrow> (\<forall>x\<in>set xs. save_ok w (p x))"
  using assms
proof (induction xs arbitrary: w)
  case Nil
  show ?case by simp
next
  case (Cons x xs)
  let ?v = "w\<lparr>nodes := (nodes w)(p x \<mapsto> ImageFile (g x)), trace := trace w @ [Save (p x) (g x)]\<rparr>"
  show ?case
  proof (cases "save_ok w (p x)")
    case False
    then have "fst (save (g x) (p x) w) \<noteq> Inr ()" by (simp add: save_cases)
    with False show ?thesis by (auto split: prod.splits sum.splits)
  next
    case True
    have same: "save_ok ?v (p y) \<longleftrightarrow> save_ok w (p y)" if "y \<in> set xs" for y
      using that True Cons.prems by (auto simp: save_ok_def)
    from Cons.prems have "\<forall>a\<in>set xs. \<forall>b\<in>set xs. dirname (p a) \<noteq> p b" by simp
    moreover from True have "save (g x) (p x) w = (Inr (), ?v)"
      by (simp add: save_cases)
    ultimately show ?thesis
      using Cons.IH [of ?v] True same by simp
  qed
qed

section \<open>Formatting and paths\<close>

lemma digit_val_digit_char: "d < 10 \<Longrightarrow> digit_val (digit_char d) = Some d"
proof -
  assume "d < 10"
  then have "d \<in> {0, 1, 2, 3, 4, 5, 6, 7, 8, 9}" by auto
  then show ?thesis
    by (auto simp: digit_val_def digit_char_def)
qed

lemma digits_chars: "c \<in> set (digits n) \<Longrightarrow> digit_val c \<noteq> None"
proof (induction n rule: digits.induct)
  case (1 n)
  show ?case
  proof (cases "n < 10")
    case True
    with "1.prems" show ?thesis
      by (subst (asm) digits.simps) (simp add: digit_val_digit_char)
  next
    case False
    with "1.prems" have "c \<in> set (digits (n div 10)) \<or> c = digit_char (n mod 10)"
      by (subst (asm) digits.simps) auto
    with False "1.IH" show ?thesis
      by (auto simp: digit_val_digit_char)
  qed
qed

lemma digits_not_Nil: "digits n \<noteq> []"
  by (subst digits.simps) simp

lemma decimal_value_digits: "decimal_value (digits n) = n"
proof (induction n rule: digits.induct)
  case (1 n)
  show ?case
  proof (cases "n < 10")
    case True
    then show ?thesis
      by (subst digits.simps) (simp add: decimal_value_def digit_val_digit_char)
  next
    case False
    with "1.IH" have "decimal_value (digits (n div 10)) = n div 10" by simp
    with False show ?thesis
      by (subst digits.simps) (simp add: decimal_value_def digit_val_digit_char)
  qed
qed

lemma digits_inj: "digits m = digits n \<Longrightarrow> m = n"
  by (metis decimal_value_digits)

lemma str_chars: "c \<in> set (str n) \<Longrightarrow> c = CHR ''-'' \<or> digit_val c \<noteq> None"
  by (auto simp: str_def dest: digits_chars split: if_splits)

lemma str_inj: "str m = str n \<Longrightarrow> m = n"
proof -
  assume eq: "str m = str n"
  have cons: "CHR ''-'' # digits a \<noteq> digits b" for a b
  proof
    assume "CHR ''-'' # digits a = digits b"
    then have "CHR ''-'' \<in> set (digits b)" by (metis list.set_intros(1))
    then have "digit_val (CHR ''-'') \<noteq> None" by (rule digits_chars)
    then show False by (simp add: digit_val_def)
  qed
  show ?thesis
  proof (cases "m < 0")
    case True
    with eq cons have "n < 0" by (auto simp: str_def split: if_splits)
    with True eq have "digits (nat (- m)) = digits (nat (- n))" by (simp add: str_def)
    then have "nat (- m) = nat (- n)" by (rule digits_inj)
    with True \<open>n < 0\<close> show ?thesis by simp
  next
    case False
    with eq cons have "\<not> n < 0" by (auto simp: str_def split: if_splits dest: sym)
    with False eq have "digits (nat m) = digits (nat n)" by (simp add: str_def)
    then have "nat m = nat n" by (rule digits_inj)
    with False \<open>\<not> n < 0\<close> show ?thesis by simp
  qed
qed

lemma delimiter_split:
  "c \<notin> set xs \<Longrightarrow> c \<notin> set ys \<Longrightarrow> xs @ c # us = ys @ c # vs \<Longrightarrow> xs = ys \<and> us = vs"
proof (induction xs arbitrary: ys)
  case Nil
  then show ?case by (cases ys) auto
next
  case (Cons x xs)
  then show ?case by (cases ys) auto
qed

lemma file_name_inj: "file_name j i = file_name j' i' \<Longrightarrow> j = j' \<and> i = i'"
proof -
  assume "file_name j i = file_name j' i'"
  then have eq: "str j @ CHR ''_'' # (str i @ ''.png'') = str j' @ CHR ''_'' # (str i' @ ''.png'')"
    by (simp add: file_name_def)
  have "CHR ''_'' \<notin> set (str k)" for k
    using str_chars [of "CHR ''_''" k] by (auto simp: digit_val_def)
  then have "CHR ''_'' \<notin> set (str j)" "CHR ''_'' \<notin> set (str j')"
    by blast+
  from delimiter_split [OF this eq] show ?thesis
    by (auto dest: str_inj)
qed

lemma file_name_no_sep: "sep \<notin> set (file_name j i)"
proof -
  have "sep \<notin> set (str k)" for k
    using str_chars [of sep k] by (auto simp: digit_val_def sep_def)
  then show ?thesis by (simp add: file_name_def sep_def)
qed

lemma file_name_Cons: "file_name j i = CHR ''s'' # tl (file_name j i)"
  by (simp add: file_name_def)

lemma tile_path_eq:
  "tile_path dest ji =
     (if dest = [] \<or> last dest = sep then dest else dest @ [sep]) @ file_name (fst ji) (snd ji)"
  by (subst file_name_Cons) (simp add: tile_path_def path_join_def sep_def file_name_def)

lemma tile_path_inj: "tile_path dest a = tile_path dest b \<Longrightarrow> a = b"
  by (auto simp: tile_path_eq prod_eq_iff dest: file_name_inj)

lemma strip_sep_length: "length (strip_sep p) \<le> length p"
  by (simp add: strip_sep_def) (metis length_dropWhile_le length_rev)

lemma strip_sep_Nil: "strip_sep p = [] \<longleftrightarrow> p = []"
  by (auto simp: strip_sep_def list_all_iff dropWhile_eq_Nil_conv)

lemma strip_sep_snoc_sep: "d \<noteq> [] \<Longrightarrow> last d \<noteq> sep \<Longrightarrow> strip_sep (d @ [sep]) = d"
proof -
  assume d: "d \<noteq> []" "last d \<noteq> sep"
  then have "last d \<in> set d" by simp
  with d have "\<not> list_all (\<lambda>c. c = sep) (d @ [sep])"
    by (auto simp: list_all_iff)
  moreover from d have "dropWhile (\<lambda>c. c = sep) (rev d) = rev d"
    by (cases d rule: rev_cases) auto
  ultimately show ?thesis by (simp add: strip_sep_def)
qed

lemma strip_sep_no_trailing: "d \<noteq> [] \<Longrightarrow> last d \<noteq> sep \<Longrightarrow> strip_sep d = d"
proof -
  assume d: "d \<noteq> []" "last d \<noteq> sep"
  then have "dropWhile (\<lambda>c. c = sep) (rev d) = rev d"
    by (cases d rule: rev_cases) auto
  then show ?thesis by (simp add: strip_sep_def)
qed

lemma dirname_append_name:
  assumes "sep \<notin> set n" and "h = [] \<or> last h = sep"
  shows "dirname (h @ n) = strip_sep h"
proof -
  have "dropWhile (\<lambda>c. c \<noteq> sep) (rev n @ rev h) = dropWhile (\<lambda>c. c \<noteq> sep) (rev h)"
    using assms(1) by (intro dropWhile_append2) auto
  moreover have "dropWhile (\<lambda>c. c \<noteq> sep) (rev h) = rev h"
    using assms(2) by (cases h rule: rev_cases) auto
  ultimately show ?thesis by (simp add: dirname_def)
qed

lemma dirname_tile_path: "dirname (tile_path dest ji) = strip_sep dest"
proof (cases "dest = [] \<or> last dest = sep")
  case True
  then show ?thesis
    using dirname_append_name [of "file_name (fst ji) (snd ji)" dest] file_name_no_sep
    by (simp add: tile_path_eq)
next
  case False
  then have "dirname ((dest @ [sep]) @ file_name (fst ji) (snd ji)) = strip_sep (dest @ [sep])"
    using file_name_no_sep by (intro dirname_append_name) auto
  with False show ?thesis
    by (simp add: tile_path_eq strip_sep_snoc_sep strip_sep_no_trailing)
qed

lemma tile_path_longer: "length (strip_sep dest) < length (tile_path dest ji)"
proof -
  have "length dest < length (tile_path dest ji)"
    by (simp add: tile_path_eq file_name_def)
  with strip_sep_length [of dest] show ?thesis by simp
qed

lemma tile_path_not_parent: "dirname (tile_path dest a) \<noteq> tile_path dest b"
proof
  assume "dirname (tile_path dest a) = tile_path dest b"
  then have "length (strip_sep dest) = length (tile_path dest b)"
    by (simp add: dirname_tile_path)
  with tile_path_longer [of dest b] show False by simp
qed

lemma tile_path_not_dest: "tile_path dest a \<noteq> strip_sep dest"
proof
  assume "tile_path dest a = strip_sep dest"
  then have "length (strip_sep dest) = length (tile_path dest a)" by simp
  with tile_path_longer [of dest a] show False by simp
qed

section \<open>Runs of the tiler\<close>

lemma cut_unfold:
  "cut_image_into_squares path s dest w =
     (case image_open path w of
        Inl e \<Rightarrow> (Inl e, w)
      | Inr img \<Rightarrow>
          if s = 0 then (Inl ZeroDivisionError, w)
          else (case (if \<not> path_exists dest w then makedirs dest w else (Inr (), w)) of
                  (Inl e, w1) \<Rightarrow> (Inl e, w1)
                | (Inr _, w1) \<Rightarrow>
                    for_each (\<lambda>ji. save (tile_image img s ji) (tile_path dest ji)) (grid img s) w1))"
  unfolding cut_image_into_squares_def Let_def for_each_nested tile_image_def tile_path_def grid_def
  by (rule refl)

lemma argv_unfold:
  "cut_image_into_squares_argv path s dest w =
     (case cut_image_into_squares path s dest w of
        (Inl e, w') \<Rightarrow> (Inl e, w')
      | (Inr _, w') \<Rightarrow> print success_message w')"
  by (simp add: cut_image_into_squares_argv_def cut_image_into_squares_def Let_def
           split: sum.splits prod.splits)

lemma makedirs_ok:
  assumes "makedirs dest w = (Inr (), w1)"
  shows "nodes w1 = (nodes w)(strip_sep dest \<mapsto> Directory)"
    and "trace w1 = trace w @ [MakeDirs dest]"
    and "denied w1 = denied w"
    and "dest \<noteq> []"
  using assms by (auto simp: makedirs_def split: if_splits)

lemma makedirs_fail: "makedirs dest w = (Inl e, w1) \<Longrightarrow> w1 = w"
  by (auto simp: makedirs_def split: if_splits)

lemma saves_append: "saves (xs @ ys) = saves xs @ saves ys"
  by (induction xs rule: saves.induct) simp_all

lemma saves_map_Save: "saves (map (\<lambda>x. Save (p x) (g x)) xs) = map (\<lambda>x. (p x, g x)) xs"
  by (induction xs) simp_all

lemma cut_run:
  assumes "cut_image_into_squares path s dest w = (Inr (), w')"
  shows "\<exists>img. image_open path w = Inr img \<and> s \<noteq> 0
           \<and> (path_exists dest w \<or> fst (makedirs dest w) = Inr ())
           \<and> (\<forall>ji\<in>set (grid img s). save_ok (prepared dest w) (tile_path dest ji))
           \<and> trace w' = trace w @ (if path_exists dest w then [] else [MakeDirs dest]) @ tile_events img s dest
           \<and> nodes w' = nodes (prepared dest w) ++ map_of (rev (tile_files img s dest))
           \<and> denied w' = denied w"
proof -
  from assms obtain img where img: "image_open path w = Inr img"
    by (auto simp: cut_unfold split: sum.splits)
  from assms img have s: "s \<noteq> 0"
    by (auto simp: cut_unfold split: if_splits)
  let ?loop = "for_each (\<lambda>ji. save (tile_image img s ji) (tile_path dest ji)) (grid img s)"
  have prep: "(path_exists dest w \<or> fst (makedirs dest w) = Inr ()) \<and> ?loop (prepared dest w) = (Inr (), w')"
  proof (cases "path_exists dest w")
    case True
    with assms img s show ?thesis by (simp add: cut_unfold prepared_def)
  next
    case False
    with assms img s show ?thesis
      by (cases "makedirs dest w") (auto simp: cut_unfold prepared_def split: sum.splits)
  qed
  then have loop: "?loop (prepared dest w) = (Inr (), w')" ..
  have parents: "\<forall>x\<in>set (grid img s). \<forall>y\<in>set (grid img s). dirname (tile_path dest x) \<noteq> tile_path dest y"
    by (simp add: tile_path_not_parent)
  from loop have "fst (?loop (prepared dest w)) = Inr ()" by simp
  with for_each_save_succeeds_iff [OF parents]
  have ok: "\<forall>ji\<in>set (grid img s). save_ok (prepared dest w) (tile_path dest ji)" by blast
  have tr: "trace (prepared dest w) = trace w @ (if path_exists dest w then [] else [MakeDirs dest])"
   and dn: "denied (prepared dest w) = denied w"
  proof -
    show "trace (prepared dest w) = trace w @ (if path_exists dest w then [] else [MakeDirs dest])"
      using prep by (cases "makedirs dest w") (auto simp: prepared_def dest: makedirs_ok(2))
    show "denied (prepared dest w) = denied w"
      using prep by (cases "makedirs dest w") (auto simp: prepared_def dest: makedirs_ok(3))
  qed
  from for_each_save_effect [OF loop] img s prep ok tr dn show ?thesis
    by (simp add: tile_events_def tile_files_def)
qed

lemma cut_succeeds:
  assumes "image_open path w = Inr img" and "s \<noteq> 0"
      and "path_exists dest w \<or> fst (makedirs dest w) = Inr ()"
      and "\<forall>ji\<in>set (grid img s). save_ok (prepared dest w) (tile_path dest ji)"
  shows "fst (cut_image_into_squares path s dest w) = Inr ()"
proof -
  have parents: "\<forall>x\<in>set (grid img s). \<forall>y\<in>set (grid img s). dirname (tile_path dest x) \<noteq> tile_path dest y"
    by (simp add: tile_path_not_parent)
  from for_each_save_succeeds_iff [OF parents] assms(4)
  have loop: "fst (for_each (\<lambda>ji. save (tile_image img s ji) (tile_path dest ji)) (grid img s) (prepared dest w)) = Inr ()"
    by blast
  show ?thesis
  proof (cases "path_exists dest w")
    case True
    with assms(1,2) loop show ?thesis by (simp add: cut_unfold prepared_def)
  next
    case False
    with assms(3) obtain w1 where "makedirs dest w = (Inr (), w1)"
      by (cases "makedirs dest w") auto
    with False assms(1,2) loop show ?thesis by (simp add: cut_unfold prepared_def)
  qed
qed

lemma tiler_run:
  assumes "tiler = cut_image_into_squares \<or> tiler = cut_image_into_squares_argv"
      and "tiler path s dest w = (Inr (), w')"
  shows "\<exists>img rest. image_open path w = Inr img \<and> s \<noteq> 0
           \<and> (path_exists dest w \<or> fst (makedirs dest w) = Inr ())
           \<and> (\<forall>ji\<in>set (grid img s). save_ok (prepared dest w) (tile_path dest ji))
           \<and> trace w' = trace w @ (if path_exists dest w then [] else [MakeDirs dest]) @ tile_events img s dest @ rest
           \<and> (rest = [] \<or> rest = [Print success_message])
           \<and> nodes w' = nodes (prepared dest w) ++ map_of (rev (tile_files img s dest))
           \<and> denied w' = denied w"
  using assms(1)
proof
  assume "tiler = cut_image_into_squares"
  with assms(2) cut_run [of path s dest w w'] show ?thesis by auto
next
  assume t: "tiler = cut_image_into_squares_argv"
  with assms(2) obtain v where v: "cut_image_into_squares path s dest w = (Inr (), v)"
    and w': "w' = v\<lparr>trace := trace v @ [Print success_message]\<rparr>"
    by (auto simp: argv_unfold print_def split: prod.splits sum.splits)
  from cut_run [OF v] w' show ?thesis by auto
qed

lemma tiler_succeeds:
  assumes "tiler = cut_image_into_squares \<or> tiler = cut_image_into_squares_argv"
      and "image_open path w = Inr img" and "s \<noteq> 0"
      and "path_exists dest w \<or> fst (makedirs dest w) = Inr ()"
      and "\<forall>ji\<in>set (grid img s). save_ok (prepared dest w) (tile_path dest ji)"
  shows "fst (tiler path s dest w) = Inr ()"
proof -
  from cut_succeeds [OF assms(2-5)] have "fst (cut_image_into_squares path s dest w) = Inr ()" .
  with assms(1) show ?thesis
    by (auto simp: argv_unfold print_def split: prod.splits sum.splits)
qed

lemma tiler_saves:
  assumes "trace w' = trace w @ pre @ tile_events img s dest @ rest"
      and "saves pre = []" and "saves rest = []"
  shows "saves (new_events w w') = map (\<lambda>ji. (tile_path dest ji, tile_image img s ji)) (grid img s)"
  using assms by (simp add: new_events_def saves_append tile_events_def saves_map_Save)

section \<open>Grid, crop and arithmetic\<close>

lemma set_grid:
  "set (grid img s) = {(row, col). 0 \<le> row \<and> row < height img div s \<and> 0 \<le> col \<and> col < width img div s}"
  by (auto simp: grid_def py_range_def)

lemma length_grid: "length (grid img s) = nat (height img div s) * nat (width img div s)"
  by (simp add: grid_def py_range_def)

lemma distinct_grid: "distinct (grid img s)"
  by (simp add: grid_def py_range_def distinct_product)

lemma image_open_Inr:
  "image_open path w = Inr img \<Longrightarrow> wf_image img \<and> nodes w path = Some (ImageFile img)"
  by (auto simp: image_open_def split: option.splits node.splits if_splits)

lemma square_box_eq: "square_box s j i = (i * s, j * s, i * s + s, j * s + s)"
  by (simp add: square_box_def Let_def)

lemma crop_size: "width (crop img (l, t, r, b)) = r - l" "height (crop img (l, t, r, b)) = b - t"
  by (simp_all add: crop_def)

lemma wf_crop: "l \<le> r \<Longrightarrow> t \<le> b \<Longrightarrow> wf_image (crop img (l, t, r, b))"
  by (simp add: wf_image_def crop_def list_all_iff)

lemma pixel_at_crop:
  assumes "0 \<le> x" "x < r - l" "0 \<le> y" "y < b - t"
  shows "pixel_at (crop img (l, t, r, b)) (x, y) =
           Some (case pixel_at img (l + x, t + y) of Some p \<Rightarrow> p | None \<Rightarrow> 0)"
proof -
  from assms have ry: "[t..b - 1] ! nat y = t + y" and ly: "nat y < length [t..b - 1]"
    by simp_all
  from assms have rx: "[l..r - 1] ! nat x = l + x" and lx: "nat x < length [l..r - 1]"
    by simp_all
  have "pixels (crop img (l, t, r, b)) ! nat y ! nat x =
          (case pixel_at img (l + x, t + y) of Some p \<Rightarrow> p | None \<Rightarrow> 0)"
    unfolding crop_def using ly lx by (simp add: ry rx del: length_upto nth_upto)
  with assms show ?thesis
    by (simp add: pixel_at_def crop_size)
qed

lemma tile_in_image:
  assumes "0 < s" "0 \<le> i" "i < n div s" "0 \<le> x" "x < s"
  shows "0 \<le> i * s + x" "i * s + x < (n::int)"
proof -
  from assms show "0 \<le> i * s + x" by simp
  from assms have "i + 1 \<le> n div s" by simp
  with assms(1) have "(i + 1) * s \<le> (n div s) * s" by (simp add: mult_right_mono)
  also have "(n div s) * s \<le> n"
  proof -
    have "n = n div s * s + n mod s" by simp
    moreover from assms(1) have "0 \<le> n mod s" by simp
    ultimately show ?thesis by linarith
  qed
  finally show "i * s + x < n" using assms(5) by (simp add: algebra_simps)
qed

lemma tile_index:
  assumes "0 < s" "i * s \<le> x" "x < i * s + s"
  shows "x div s = (i::int)"
proof -
  have "x = i * s + (x - i * s)" by simp
  then have "x div s = i + (x - i * s) div s"
    using assms(1) by (metis div_mult_self3 less_irrefl)
  moreover from assms have "(x - i * s) div s = 0" by simp
  ultimately show ?thesis by simp
qed

section \<open>The sample run\<close>

lemma studio_open: "image_open ''sheet.png'' studio = Inr sheet"
  by (simp add: image_open_def studio_def sheet_def wf_image_def)

lemma studio_run: "cut_image_into_squares ''sheet.png'' 2 ''out'' studio = (Inr (), studio_after)"
proof -
  have "fst (cut_image_into_squares ''sheet.png'' 2 ''out'' studio) = Inr ()"
    by code_simp
  then show ?thesis by (simp add: studio_after_def prod_eq_iff)
qed

section \<open>Count, size and content of the tiles\<close>

lemma run_saves:
  assumes "tiler = cut_image_into_squares \<or> tiler = cut_image_into_squares_argv"
      and "image_open path w = Inr img"
      and "tiler path s dest w = (Inr (), w')"
  shows "saves (new_events w w') = map (\<lambda>ji. (tile_path dest ji, tile_image img s ji)) (grid img s)"
proof -
  from tiler_run [OF assms(1,3)] assms(2) obtain rest where
    tr: "trace w' = trace w @ (if path_exists dest w then [] else [MakeDirs dest]) @ tile_events img s dest @ rest"
    and rest: "rest = [] \<or> rest = [Print success_message]"
    by auto
  from rest have "saves rest = []" by auto
  with tr show ?thesis by (intro tiler_saves [where pre = "if path_exists dest w then [] else [MakeDirs dest]" and rest = rest]) auto
qed

lemma run_paths_distinct:
  assumes "tiler = cut_image_into_squares \<or> tiler = cut_image_into_squares_argv"
      and "image_open path w = Inr img"
      and "tiler path s dest w = (Inr (), w')"
  shows "distinct (map fst (saves (new_events w w')))"
proof -
  have "map fst (saves (new_events w w')) = map (tile_path dest) (grid img s)"
    using run_saves [OF assms] by (simp add: comp_def)
  moreover have "inj_on (tile_path dest) (set (grid img s))"
    by (rule inj_onI) (rule tile_path_inj)
  ultimately show ?thesis
    by (simp add: distinct_map distinct_grid)
qed

lemma grid_counts:
  assumes "wf_image img" "0 < s"
  shows "int (length (grid img s)) = (width img div s) * (height img div s)"
proof -
  from assms have "0 \<le> width img div s" "0 \<le> height img div s"
    by (simp_all add: wf_image_def pos_imp_zdiv_nonneg_iff)
  then show ?thesis by (simp add: length_grid)
qed

lemma tile_image_size:
  "0 \<le> s \<Longrightarrow> width (tile_image img s ji) = s \<and> height (tile_image img s ji) = s \<and> wf_image (tile_image img s ji)"
  by (simp add: tile_image_def square_box_eq crop_size wf_crop)

lemma distinct_tile_files: "distinct (map fst (rev (tile_files img s dest)))"
proof -
  have "inj_on (tile_path dest) (set (grid img s))"
    by (rule inj_onI) (rule tile_path_inj)
  then have "distinct (map (tile_path dest) (grid img s))"
    by (simp add: distinct_map distinct_grid)
  moreover have "map fst (tile_files img s dest) = map (tile_path dest) (grid img s)"
    by (simp add: tile_files_def comp_def)
  ultimately show ?thesis by (simp add: rev_map [symmetric] del: map_map)
qed

lemma tile_files_lookup:
  assumes "ji \<in> set (grid img s)"
  shows "map_of (rev (tile_files img s dest)) (tile_path dest ji) = Some (ImageFile (tile_image img s ji))"
proof -
  from assms have "(tile_path dest ji, ImageFile (tile_image img s ji)) \<in> set (rev (tile_files img s dest))"
    by (auto simp: tile_files_def)
  with distinct_tile_files [of img s dest] show ?thesis
    by (rule map_of_is_SomeI)
qed

lemma tile_files_other:
  assumes "\<forall>ji\<in>set (grid img s). q \<noteq> tile_path dest ji"
  shows "map_of (rev (tile_files img s dest)) q = None"
  using assms by (auto simp: map_of_eq_None_iff tile_files_def)

lemma tile_pixels:
  assumes "0 < s" "0 \<le> row" "row < height img div s" "0 \<le> col" "col < width img div s"
      and "0 \<le> x" "x < s" "0 \<le> y" "y < s"
  shows "pixel_at (crop img (square_box s row col)) (x, y) = pixel_at img (col * s + x, row * s + y)"
    and "pixel_at img (col * s + x, row * s + y) = Some (pixels img ! nat (row * s + y) ! nat (col * s + x))"
proof -
  from tile_in_image [OF assms(1,4,5,6,7)] tile_in_image [OF assms(1,2,3,8,9)]
  show src: "pixel_at img (col * s + x, row * s + y) = Some (pixels img ! nat (row * s + y) ! nat (col * s + x))"
    by (simp add: pixel_at_def)
  from assms have "pixel_at (crop img (col * s, row * s, col * s + s, row * s + s)) (x, y) =
      Some (case pixel_at img (col * s + x, row * s + y) of Some p \<Rightarrow> p | None \<Rightarrow> 0)"
    by (intro pixel_at_crop) simp_all
  with src show "pixel_at (crop img (square_box s row col)) (x, y) = pixel_at img (col * s + x, row * s + y)"
    by (simp add: square_box_eq)
qed

section \<open>Regions of the tiles\<close>

lemma region_square_box:
  "region (square_box s row col) =
     {(x, y). col * s \<le> x \<and> x < col * s + s \<and> row * s \<le> y \<and> y < row * s + s}"
  by (simp add: region_def square_box_eq)

lemma regions_disjoint:
  assumes "0 < s" and "(row, col) \<noteq> (row', col')"
  shows "region (square_box s row col) \<inter> region (square_box s row' col') = {}"
proof (rule ccontr)
  assume "region (square_box s row col) \<inter> region (square_box s row' col') \<noteq> {}"
  then obtain x y where in1: "(x, y) \<in> region (square_box s row col)"
    and in2: "(x, y) \<in> region (square_box s row' col')"
    by auto
  from in1 assms(1) have "x div s = col" "y div s = row"
    by (simp_all add: region_square_box tile_index)
  moreover from in2 assms(1) have "x div s = col'" "y div s = row'"
    by (simp_all add: region_square_box tile_index)
  ultimately show False using assms(2) by simp
qed

lemma covered_in_image:
  assumes "0 < s"
  shows "(n div s) * s \<le> (n::int)"
proof -
  have "n = n div s * s + n mod s" by simp
  moreover from assms have "0 \<le> n mod s" by simp
  ultimately show ?thesis by linarith
qed

lemma region_covered:
  assumes "0 < s" "0 \<le> row" "row < rows" "0 \<le> col" "col < columns"
  shows "region (square_box s row col) \<subseteq>
           {(x, y). 0 \<le> x \<and> x < columns * s \<and> 0 \<le> y \<and> y < rows * s}"
proof -
  from assms have "(col + 1) * s \<le> columns * s" "(row + 1) * s \<le> rows * s"
    by (simp_all add: mult_right_mono)
  then have up: "col * s + s \<le> columns * s" "row * s + s \<le> rows * s"
    by (simp_all add: algebra_simps)
  from assms have "0 \<le> col * s" "0 \<le> row * s" by simp_all
  with up show ?thesis
    by (auto simp: region_square_box)
qed

section \<open>File names\<close>

lemma digits_no_padding: "0 < n \<Longrightarrow> hd (digits n) \<noteq> CHR ''0''"
proof (induction n rule: digits.induct)
  case (1 n)
  show ?case
  proof (cases "n < 10")
    case True
    with "1.prems" have "n \<in> {1, 2, 3, 4, 5, 6, 7, 8, 9}" by auto
    then have "digit_char n \<noteq> CHR ''0''" by (auto simp: digit_char_def)
    with True show ?thesis by (subst digits.simps) simp
  next
    case False
    then have "0 < n div 10" by simp
    with False "1.IH" have "hd (digits (n div 10)) \<noteq> CHR ''0''" by simp
    with False show ?thesis
      by (subst digits.simps) (simp add: digits_not_Nil)
  qed
qed

lemma str_decimal:
  assumes "0 \<le> n"
  shows "decimal_value (str n) = nat n" and "0 < n \<Longrightarrow> hd (str n) \<noteq> CHR ''0''"
  using assms by (simp_all add: str_def decimal_value_digits digits_no_padding)

section \<open>Order of the writes\<close>

lemma grid_row_major: "grid img s = row_major (height img div s) (width img div s)"
  by (simp add: grid_def row_major_def py_range_def product_concat_map)

lemma grid_nth:
  assumes "k < length (grid img s)"
  shows "grid img s ! k = (int k div (width img div s), int k mod (width img div s))"
proof -
  let ?rows = "height img div s" and ?cols = "width img div s"
  from assms have k: "k < nat ?rows * nat ?cols" by (simp add: length_grid)
  then have pos: "0 < ?cols" "0 < ?rows"
    by (auto simp: zero_less_nat_eq [symmetric] simp del: zero_less_nat_eq intro: Nat.gr0I)
  from k have "k < length [0..?rows - 1] * length [0..?cols - 1]" by simp
  then have "grid img s ! k = ([0..?rows - 1] ! (k div nat ?cols), [0..?cols - 1] ! (k mod nat ?cols))"
    unfolding grid_def py_range_def by (simp add: product_nth)
  moreover from k pos have "k div nat ?cols < nat ?rows"
    by (simp add: less_mult_imp_div_less)
  then have "[0..?rows - 1] ! (k div nat ?cols) = int (k div nat ?cols)" by simp
  moreover from pos have "k mod nat ?cols < nat ?cols" by simp
  then have "[0..?cols - 1] ! (k mod nat ?cols) = int (k mod nat ?cols)" by simp
  moreover from pos have "int (k div nat ?cols) = int k div ?cols" "int (k mod nat ?cols) = int k mod ?cols"
    by (simp_all add: zdiv_int zmod_int)
  ultimately show ?thesis by simp
qed

lemma for_each_save_prefix:
  "for_each (\<lambda>x. save (g x) (p x)) xs w = (r, w') \<Longrightarrow>
     \<exists>k. trace w' = trace w @ map (\<lambda>x. Save (p x) (g x)) (take k xs)"
proof (induction xs arbitrary: w)
  case Nil
  then show ?case by simp
next
  case (Cons x xs)
  let ?v = "w\<lparr>nodes := (nodes w)(p x \<mapsto> ImageFile (g x)), trace := trace w @ [Save (p x) (g x)]\<rparr>"
  show ?case
  proof (cases "save_ok w (p x)")
    case False
    then obtain e where "save (g x) (p x) w = (Inl e, w)" by (simp add: save_cases)
    with Cons.prems have "w' = w" by simp
    then have "trace w' = trace w @ map (\<lambda>x. Save (p x) (g x)) (take 0 (x # xs))" by simp
    then show ?thesis by blast
  next
    case True
    then have "save (g x) (p x) w = (Inr (), ?v)" by (simp add: save_cases)
    with Cons.prems have "for_each (\<lambda>x. save (g x) (p x)) xs ?v = (r, w')" by simp
    from Cons.IH [OF this] obtain k where
      "trace w' = trace ?v @ map (\<lambda>x. Save (p x) (g x)) (take k xs)" ..
    then have "trace w' = trace w @ map (\<lambda>x. Save (p x) (g x)) (take (Suc k) (x # xs))" by simp
    then show ?thesis by blast
  qed
qed

lemma cut_any_trace:
  assumes "image_open path w = Inr img"
      and "cut_image_into_squares path s dest w = (r, w')"
  shows "\<exists>es k. trace w' = trace w @ es
           \<and> saves es = take k (map (\<lambda>ji. (tile_path dest ji, tile_image img s ji)) (grid img s))"
proof -
  let ?tiles = "map (\<lambda>ji. (tile_path dest ji, tile_image img s ji)) (grid img s)"
  have none: "trace w = trace w @ [] \<and> saves [] = take 0 ?tiles" by simp
  show ?thesis
  proof (cases "s = 0")
    case True
    with assms have "w' = w" by (simp add: cut_unfold)
    with none show ?thesis by blast
  next
    case False
    show ?thesis
    proof (cases "if \<not> path_exists dest w then makedirs dest w else (Inr (), w)")
      case (Pair r1 w1)
      show ?thesis
      proof (cases r1)
        case (Inl e)
        with Pair have "w1 = w" by (auto split: if_splits dest: makedirs_fail)
        with Pair Inl assms False have "w' = w" by (simp add: cut_unfold)
        with none show ?thesis by blast
      next
        case (Inr u)
        with Pair assms False
        have loop: "for_each (\<lambda>ji. save (tile_image img s ji) (tile_path dest ji)) (grid img s) w1 = (r, w')"
          by (simp add: cut_unfold)
        from for_each_save_prefix [OF loop] obtain k where
          k: "trace w' = trace w1 @ map (\<lambda>ji. Save (tile_path dest ji) (tile_image img s ji)) (take k (grid img s))" ..
        let ?es = "(if path_exists dest w then [] else [MakeDirs dest])
            @ map (\<lambda>ji. Save (tile_path dest ji) (tile_image img s ji)) (take k (grid img s))"
        from Pair Inr have "trace w1 = trace w @ (if path_exists dest w then [] else [MakeDirs dest])"
          by (auto split: if_splits dest: makedirs_ok(2))
        with k have "trace w' = trace w @ ?es" by simp
        moreover have "saves ?es = take k ?tiles"
          by (simp add: saves_append saves_map_Save take_map)
        ultimately show ?thesis by blast
      qed
    qed
  qed
qed

lemma tiler_any_saves:
  assumes "tiler = cut_image_into_squares \<or> tiler = cut_image_into_squares_argv"
      and "image_open path w = Inr img"
      and "tiler path s dest w = (r, w')"
  shows "\<exists>k. saves (new_events w w') = take k (map (\<lambda>ji. (tile_path dest ji, tile_image img s ji)) (grid img s))"
  using assms(1)
proof
  assume "tiler = cut_image_into_squares"
  with assms(3) have "cut_image_into_squares path s dest w = (r, w')" by simp
  from cut_any_trace [OF assms(2) this] show ?thesis
    by (auto simp: new_events_def)
next
  assume t: "tiler = cut_image_into_squares_argv"
  obtain r0 v where v: "cut_image_into_squares path s dest w = (r0, v)"
    by (cases "cut_image_into_squares path s dest w")
  from cut_any_trace [OF assms(2) v] obtain es k where
    es: "trace v = trace w @ es"
    and k: "saves es = take k (map (\<lambda>ji. (tile_path dest ji, tile_image img s ji)) (grid img s))"
    by blast
  from t assms(3) v have "w' = v \<or> w' = v\<lparr>trace := trace v @ [Print success_message]\<rparr>"
    by (auto simp: argv_unfold print_def split: sum.splits)
  with es have "saves (new_events w w') = saves es"
    by (auto simp: new_events_def saves_append)
  with k show ?thesis by auto
qed

section \<open>Images smaller than one tile, and exact fits\<close>

lemma grid_empty:
  "height img div s \<le> 0 \<or> width img div s \<le> 0 \<Longrightarrow> grid img s = []"
proof -
  have "List.product xs [] = []" for xs :: "int list"
    by (induction xs) simp_all
  then show "height img div s \<le> 0 \<or> width img div s \<le> 0 \<Longrightarrow> grid img s = []"
    by (auto simp: grid_def py_range_def)
qed

lemma grid_one_column:
  assumes "width img div s = 1"
  shows "grid img s = map (\<lambda>row. (row, 0)) (py_range (height img div s))"
proof -
  have "List.product xs [0::int] = map (\<lambda>row. (row, 0)) xs" for xs :: "int list"
    by (induction xs) simp_all
  with assms show ?thesis by (simp add: grid_def py_range_def)
qed

lemma grid_one_row:
  assumes "height img div s = 1"
  shows "grid img s = map (\<lambda>col. (0, col)) (py_range (width img div s))"
  using assms by (simp add: grid_def py_range_def)

lemma studio_makedirs: "fst (makedirs ''out'' studio) = Inr ()"
  by code_simp

section \<open>The argument-driven script\<close>

lemma argv_success_prints:
  assumes "cut_image_into_squares_argv path s dest w = (Inr (), w')"
  shows "new_events w w' \<noteq> [] \<and> last (new_events w w') = Print success_message"
proof -
  from assms obtain v where v: "cut_image_into_squares path s dest w = (Inr (), v)"
    and w': "w' = v\<lparr>trace := trace v @ [Print success_message]\<rparr>"
    by (auto simp: argv_unfold print_def split: prod.splits sum.splits)
  from cut_run [OF v] obtain es where "trace v = trace w @ es" by auto
  with w' have "new_events w w' = es @ [Print success_message]"
    by (simp add: new_events_def)
  then show ?thesis by simp
qed

section \<open>The destination folder\<close>

lemma prepared_dest:
  assumes "path_exists dest w \<or> fst (makedirs dest w) = Inr ()"
  shows "dest \<noteq> []"
    and "path_exists dest (prepared dest w)"
    and "\<not> path_exists dest w \<Longrightarrow> nodes (prepared dest w) (strip_sep dest) = Some Directory"
    and "\<not> path_exists dest w \<Longrightarrow> nodes (prepared dest w) = (nodes w)(strip_sep dest \<mapsto> Directory)"
    and "\<not> path_exists dest w \<Longrightarrow> nodes w (strip_sep dest) = None"
    and "denied (prepared dest w) = denied w"
  using assms
  by (auto simp: prepared_def path_exists_def makedirs_def split: if_splits)

lemma run_dest_node:
  assumes "tiler = cut_image_into_squares \<or> tiler = cut_image_into_squares_argv"
      and "tiler path s dest w = (Inr (), w')"
  shows "nodes w' (strip_sep dest) = nodes (prepared dest w) (strip_sep dest)"
proof -
  from tiler_run [OF assms] obtain img where
    "nodes w' = nodes (prepared dest w) ++ map_of (rev (tile_files img s dest))"
    by auto
  moreover have "map_of (rev (tile_files img s dest)) (strip_sep dest) = None"
    by (intro tile_files_other) (simp add: tile_path_not_dest [symmetric])
  ultimately show ?thesis by (simp add: map_add_def)
qed

section \<open>Square sizes that are not positive\<close>

lemma grid_nonpositive:
  assumes "wf_image img" "s \<le> 0"
  shows "grid img s = []"
proof -
  from assms have "height img div s \<le> 0"
    by (cases "s = 0") (simp_all add: wf_image_def div_nonneg_neg_le0)
  then show ?thesis by (simp add: grid_empty)
qed

lemma cut_negative:
  assumes "image_open path w = Inr img" "s < 0"
  shows "cut_image_into_squares path s dest w = (if path_exists dest w then (Inr (), w) else makedirs dest w)"
proof -
  from assms have "grid img s = []"
    by (simp add: grid_nonpositive image_open_Inr)
  with assms show ?thesis
    by (cases "makedirs dest w") (auto simp: cut_unfold split: sum.splits)
qed

section \<open>Running the tiler again\<close>

lemma map_add_twice: "(m ++ t) ++ t = m ++ t"
  by (simp add: map_add_def fun_eq_iff split: option.splits)

section \<open>Properties of the tiler\<close>

subsection \<open>Square sizes that are not positive\<close>

text \<open>
  C1. For a readable image and a square size that is not positive, no tile
  file is written. With square size 0 the call raises \<open>ZeroDivisionError\<close> before any
  directory is created or file written: the world is unchanged. With a negative square
  size the call is not rejected: it creates the destination folder if absent, and it
  returns normally exactly when the folder exists or can be created.
\<close>

theorem C1_nonpositive_square_size:
  assumes "tiler = cut_image_into_squares \<or> tiler = cut_image_into_squares_argv"
      and "image_open path w = Inr img"
      and "s \<le> 0"
      and "tiler path s dest w = (r, w')"
  shows "saves (new_events w w') = []
       \<and> (s = 0 \<longrightarrow> r = Inl ZeroDivisionError \<and> w' = w)
       \<and> (s < 0 \<longrightarrow>
            (r = Inr ()) = (path_exists dest w \<or> fst (makedirs dest w) = Inr ())
            \<and> nodes w' = nodes (prepared dest w)
            \<and> (r = Inr () \<longrightarrow> path_exists dest w'))"
proof -
  from assms(2,3) have empty: "grid img s = []"
    by (simp add: grid_nonpositive image_open_Inr)
  from tiler_any_saves [OF assms(1,2,4)] empty have none: "saves (new_events w w') = []"
    by auto
  have zero: "s = 0 \<longrightarrow> r = Inl ZeroDivisionError \<and> w' = w"
    using assms(1,2,4) by (auto simp: argv_unfold cut_unfold)
  have negative: "s < 0 \<longrightarrow>
            (r = Inr ()) = (path_exists dest w \<or> fst (makedirs dest w) = Inr ())
            \<and> nodes w' = nodes (prepared dest w)
            \<and> (r = Inr () \<longrightarrow> path_exists dest w')"
  proof
    assume neg: "s < 0"
    note cut = cut_negative [OF assms(2) neg, of dest]
    obtain r1 w1 where m: "makedirs dest w = (r1, w1)" by (cases "makedirs dest w")
    have fail: "w1 = w" if "r1 \<noteq> Inr ()"
      using that m by (cases r1) (auto dest: makedirs_fail)
    from assms(1,4) cut m fail
    have r: "(r = Inr ()) = (path_exists dest w \<or> fst (makedirs dest w) = Inr ())"
      and n: "nodes w' = nodes (prepared dest w)"
      by (auto simp: argv_unfold print_def prepared_def split: if_splits sum.splits)
    have "path_exists dest w'" if "r = Inr ()"
    proof -
      from that r have "path_exists dest w \<or> fst (makedirs dest w) = Inr ()" by simp
      from prepared_dest(2) [OF this] n show ?thesis by (simp add: path_exists_def)
    qed
    with r n show "(r = Inr ()) = (path_exists dest w \<or> fst (makedirs dest w) = Inr ())
            \<and> nodes w' = nodes (prepared dest w)
            \<and> (r = Inr () \<longrightarrow> path_exists dest w')"
      by blast
  qed
  from none zero negative show ?thesis by blast
qed

theorem C1_witness:
  "cut_image_into_squares ''sheet.png'' 0 ''out'' studio = (Inl ZeroDivisionError, studio)
   \<and> fst (cut_image_into_squares ''sheet.png'' (- 1) ''out'' studio) = Inr ()
   \<and> saves (new_events studio (snd (cut_image_into_squares ''sheet.png'' (- 1) ''out'' studio))) = []
   \<and> path_exists ''out'' (snd (cut_image_into_squares ''sheet.png'' (- 1) ''out'' studio))"
proof -
  have made: "fst (makedirs ''out'' studio) = Inr ()" by code_simp
  obtain r0 w0 where zero: "cut_image_into_squares ''sheet.png'' 0 ''out'' studio = (r0, w0)"
    by (cases "cut_image_into_squares ''sheet.png'' 0 ''out'' studio")
  obtain r1 w1 where neg: "cut_image_into_squares ''sheet.png'' (- 1) ''out'' studio = (r1, w1)"
    by (cases "cut_image_into_squares ''sheet.png'' (- 1) ''out'' studio")
  from C1_nonpositive_square_size [OF disjI1 [OF refl] studio_open _ zero]
  have "r0 = Inl ZeroDivisionError \<and> w0 = studio" by simp
  moreover from C1_nonpositive_square_size [OF disjI1 [OF refl] studio_open _ neg] made
  have "r1 = Inr () \<and> saves (new_events studio w1) = [] \<and> path_exists ''out'' w1" by simp
  ultimately show ?thesis using zero neg by simp
qed

theorem C1_counterexample:
  "fst (cut_image_into_squares ''sheet.png'' (- 1) ''out'' studio) = Inr ()
   \<and> \<not> isdir ''out'' studio
   \<and> isdir ''out'' (snd (cut_image_into_squares ''sheet.png'' (- 1) ''out'' studio))"
  by code_simp

subsection \<open>Number and size of the tiles\<close>

text \<open>
  C2. For a readable image of width \<open>w\<close> and height \<open>h\<close> and a positive square size
  \<open>s\<close>, a successful run of either script's \<open>cut_image_into_squares\<close> writes exactly
  \<open>(w div s) * (h div s)\<close> tile files, each to a path of its own, and every tile written
  is \<open>s\<close> wide and \<open>s\<close> high, with \<open>s\<close> rows of \<open>s\<close> pixels.
\<close>

theorem C2_tile_count_and_size:
  assumes "tiler = cut_image_into_squares \<or> tiler = cut_image_into_squares_argv"
      and "image_open path w = Inr img"
      and "0 < s"
      and "tiler path s dest w = (Inr (), w')"
  shows "int (length (saves (new_events w w'))) = (width img div s) * (height img div s)
       \<and> distinct (map fst (saves (new_events w w')))
       \<and> (\<forall>(p, t) \<in> set (saves (new_events w w')). width t = s \<and> height t = s \<and> wf_image t)"
proof -
  from assms(2) have wf: "wf_image img" by (simp add: image_open_Inr)
  note dist = run_paths_distinct [OF assms(1,2,4)]
  have sv: "saves (new_events w w') = map (\<lambda>ji. (tile_path dest ji, tile_image img s ji)) (grid img s)"
    using assms(1,2,4) by (rule run_saves)
  from assms(3) have "width (tile_image img s ji) = s \<and> height (tile_image img s ji) = s \<and> wf_image (tile_image img s ji)" for ji
    by (simp add: tile_image_size)
  with sv grid_counts [OF wf assms(3)] dist show ?thesis by auto
qed

theorem C2_witness:
  "cut_image_into_squares ''sheet.png'' 2 ''out'' studio = (Inr (), studio_after)
   \<and> length (saves (new_events studio studio_after)) = 4
   \<and> distinct (map fst (saves (new_events studio studio_after)))
   \<and> list_all (\<lambda>(p, t). width t = 2 \<and> height t = 2 \<and> wf_image t)
        (saves (new_events studio studio_after))"
  using C2_tile_count_and_size [of cut_image_into_squares "''sheet.png''" studio sheet 2 "''out''" studio_after]
    studio_open studio_run
  by (simp add: sheet_def list_all_iff)

subsection \<open>Content of the tiles\<close>

text \<open>
  C3. After a successful run with a positive square size, for every tile coordinate
  \<open>row < rows\<close>, \<open>col < columns\<close> the tile was written to its file, the file holds it
  at the end of the run, and the tile's pixel \<open>(x, y)\<close> is the source pixel
  \<open>(col * s + x, row * s + y)\<close>, which lies inside the source image: the tile is the
  source region \<open>[col * s, (col + 1) * s) x [row * s, (row + 1) * s)\<close>.
\<close>

theorem C3_tile_content:
  assumes "tiler = cut_image_into_squares \<or> tiler = cut_image_into_squares_argv"
      and "image_open path w = Inr img"
      and "0 < s"
      and "tiler path s dest w = (Inr (), w')"
      and "0 \<le> row" "row < height img div s" "0 \<le> col" "col < width img div s"
      and "0 \<le> x" "x < s" "0 \<le> y" "y < s"
  shows "(path_join dest (file_name row col), crop img (square_box s row col)) \<in> set (saves (new_events w w'))
       \<and> nodes w' (path_join dest (file_name row col)) = Some (ImageFile (crop img (square_box s row col)))
       \<and> pixel_at (crop img (square_box s row col)) (x, y) = pixel_at img (col * s + x, row * s + y)
       \<and> pixel_at img (col * s + x, row * s + y) = Some (pixels img ! nat (row * s + y) ! nat (col * s + x))"
proof -
  from assms(5-8) have mem: "(row, col) \<in> set (grid img s)" by (simp add: set_grid)
  have "saves (new_events w w') = map (\<lambda>ji. (tile_path dest ji, tile_image img s ji)) (grid img s)"
    using assms(1,2,4) by (rule run_saves)
  with mem have "(tile_path dest (row, col), tile_image img s (row, col)) \<in> set (saves (new_events w w'))"
    by auto
  moreover from tiler_run [OF assms(1,4)] assms(2)
  have "nodes w' = nodes (prepared dest w) ++ map_of (rev (tile_files img s dest))" by auto
  with tile_files_lookup [OF mem, of dest]
  have "nodes w' (tile_path dest (row, col)) = Some (ImageFile (tile_image img s (row, col)))"
    by (simp add: map_add_find_right)
  ultimately show ?thesis
    using tile_pixels [OF assms(3,5-12)] by (simp add: tile_path_def tile_image_def)
qed

theorem C3_witness:
  "cut_image_into_squares ''sheet.png'' 2 ''out'' studio = (Inr (), studio_after)
   \<and> nodes studio_after ''out/square_1_0.png'' = Some (ImageFile (crop sheet (0, 2, 2, 4)))
   \<and> pixel_at (crop sheet (0, 2, 2, 4)) (1, 0) = pixel_at sheet (1, 2)
   \<and> pixel_at sheet (1, 2) = Some 21"
  using C3_tile_content [of cut_image_into_squares "''sheet.png''" studio sheet 2 "''out''" studio_after 1 0 1 0]
    studio_open studio_run
  by (simp add: sheet_def square_box_eq path_join_def file_name_def str_def digits.simps digit_char_def sep_def)

subsection \<open>Disjoint tiles, covered region\<close>

text \<open>
  C4. For a readable image and a positive square size, every tile a successful run
  produces is the crop of the box of one grid coordinate; the boxes of two distinct
  coordinates share no source pixel; every box lies inside the covered region
  \<open>[0, columns * s) x [0, rows * s)\<close>, which lies inside the image; and a pixel of the
  trailing partial row or column is in no box.
\<close>

theorem C4_tiles_disjoint_and_covered:
  assumes "tiler = cut_image_into_squares \<or> tiler = cut_image_into_squares_argv"
      and "image_open path w = Inr img"
      and "0 < s"
      and "tiler path s dest w = (Inr (), w')"
  shows "(\<forall>(p, t) \<in> set (saves (new_events w w')).
            \<exists>row col. 0 \<le> row \<and> row < height img div s \<and> 0 \<le> col \<and> col < width img div s
              \<and> p = path_join dest (file_name row col) \<and> t = crop img (square_box s row col))
       \<and> (\<forall>row col row' col'. (row, col) \<noteq> (row', col') \<longrightarrow>
            region (square_box s row col) \<inter> region (square_box s row' col') = {})
       \<and> (\<forall>row col. 0 \<le> row \<and> row < height img div s \<and> 0 \<le> col \<and> col < width img div s \<longrightarrow>
            region (square_box s row col) \<subseteq>
              {(x, y). 0 \<le> x \<and> x < (width img div s) * s \<and> 0 \<le> y \<and> y < (height img div s) * s})
       \<and> (width img div s) * s \<le> width img \<and> (height img div s) * s \<le> height img
       \<and> (\<forall>row col x y. 0 \<le> row \<and> row < height img div s \<and> 0 \<le> col \<and> col < width img div s
              \<and> ((width img div s) * s \<le> x \<or> (height img div s) * s \<le> y) \<longrightarrow>
            (x, y) \<notin> region (square_box s row col))"
proof -
  have sv: "saves (new_events w w') = map (\<lambda>ji. (tile_path dest ji, tile_image img s ji)) (grid img s)"
    using assms(1,2,4) by (rule run_saves)
  have produced: "\<forall>(p, t) \<in> set (saves (new_events w w')).
            \<exists>row col. 0 \<le> row \<and> row < height img div s \<and> 0 \<le> col \<and> col < width img div s
              \<and> p = path_join dest (file_name row col) \<and> t = crop img (square_box s row col)"
    unfolding sv by (auto simp: set_grid tile_path_def tile_image_def)
  have disjoint: "\<forall>row col row' col'. (row, col) \<noteq> (row', col') \<longrightarrow>
            region (square_box s row col) \<inter> region (square_box s row' col') = {}"
    using regions_disjoint [OF assms(3)] by blast
  have inside: "\<forall>row col. 0 \<le> row \<and> row < height img div s \<and> 0 \<le> col \<and> col < width img div s \<longrightarrow>
            region (square_box s row col) \<subseteq>
              {(x, y). 0 \<le> x \<and> x < (width img div s) * s \<and> 0 \<le> y \<and> y < (height img div s) * s}"
    using region_covered [OF assms(3)] by blast
  have trailing: "\<forall>row col x y. 0 \<le> row \<and> row < height img div s \<and> 0 \<le> col \<and> col < width img div s
              \<and> ((width img div s) * s \<le> x \<or> (height img div s) * s \<le> y) \<longrightarrow>
            (x, y) \<notin> region (square_box s row col)"
  proof (intro allI impI)
    fix row col x y
    assume a: "0 \<le> row \<and> row < height img div s \<and> 0 \<le> col \<and> col < width img div s
              \<and> ((width img div s) * s \<le> x \<or> (height img div s) * s \<le> y)"
    with inside have "region (square_box s row col) \<subseteq>
              {(x, y). 0 \<le> x \<and> x < (width img div s) * s \<and> 0 \<le> y \<and> y < (height img div s) * s}"
      by blast
    with a show "(x, y) \<notin> region (square_box s row col)" by auto
  qed
  from produced disjoint inside trailing covered_in_image [OF assms(3)] show ?thesis
    by blast
qed

theorem C4_witness:
  "cut_image_into_squares ''sheet.png'' 2 ''out'' studio = (Inr (), studio_after)
   \<and> region (square_box 2 0 1) \<inter> region (square_box 2 1 1) = {}
   \<and> region (square_box 2 1 1) \<subseteq> {(x, y). 0 \<le> x \<and> x < 4 \<and> 0 \<le> y \<and> y < 4}
   \<and> (4, 3) \<notin> region (square_box 2 1 1)
   \<and> (5 div 2) * 2 \<le> (5::int)"
  using C4_tiles_disjoint_and_covered [of cut_image_into_squares "''sheet.png''" studio sheet 2 "''out''" studio_after]
    studio_open studio_run
  by (simp add: sheet_def)

subsection \<open>File names of the tiles\<close>

text \<open>
  C5. In a successful run every tile at coordinate \<open>(row, col)\<close> is written to the path
  that joins the destination folder and \<open>square_{row}_{col}.png\<close>, directly under the
  destination folder; the indices are rendered in plain decimal without padding; and
  no two tiles are written to the same path.
\<close>

theorem C5_tile_names:
  assumes "tiler = cut_image_into_squares \<or> tiler = cut_image_into_squares_argv"
      and "image_open path w = Inr img"
      and "tiler path s dest w = (Inr (), w')"
  shows "map fst (saves (new_events w w')) =
           map (\<lambda>(row, col). path_join dest (''square_'' @ str row @ ''_'' @ str col @ ''.png''))
               (grid img s)
       \<and> (\<forall>(row, col) \<in> set (grid img s). 0 \<le> row \<and> 0 \<le> col)
       \<and> (\<forall>n. 0 \<le> n \<longrightarrow> decimal_value (str n) = nat n \<and> (0 < n \<longrightarrow> hd (str n) \<noteq> CHR ''0''))
       \<and> (\<forall>p \<in> set (map fst (saves (new_events w w'))). dirname p = strip_sep dest)
       \<and> distinct (map fst (saves (new_events w w')))
       \<and> (\<forall>row col row' col'.
            path_join dest (file_name row col) = path_join dest (file_name row' col') \<longrightarrow>
            row = row' \<and> col = col')"
proof -
  have sv: "saves (new_events w w') = map (\<lambda>ji. (tile_path dest ji, tile_image img s ji)) (grid img s)"
    using assms by (rule run_saves)
  then have paths: "map fst (saves (new_events w w')) = map (tile_path dest) (grid img s)"
    by (simp add: comp_def)
  have "tile_path dest = (\<lambda>(row, col). path_join dest (''square_'' @ str row @ ''_'' @ str col @ ''.png''))"
    by (auto simp: tile_path_def file_name_def fun_eq_iff)
  with paths have names: "map fst (saves (new_events w w')) =
           map (\<lambda>(row, col). path_join dest (''square_'' @ str row @ ''_'' @ str col @ ''.png''))
               (grid img s)"
    by simp
  have "inj_on (tile_path dest) (set (grid img s))"
    by (rule inj_onI) (rule tile_path_inj)
  with paths have dist: "distinct (map fst (saves (new_events w w')))"
    by (simp add: distinct_map distinct_grid)
  from paths have under: "\<forall>p \<in> set (map fst (saves (new_events w w'))). dirname p = strip_sep dest"
    by (auto simp: dirname_tile_path)
  have inj: "\<forall>row col row' col'.
            path_join dest (file_name row col) = path_join dest (file_name row' col') \<longrightarrow>
            row = row' \<and> col = col'"
    using tile_path_inj [of dest "(row, col)" "(row', col')" for row col row' col']
    by (simp add: tile_path_def)
  have nonneg: "\<forall>(row, col) \<in> set (grid img s). 0 \<le> row \<and> 0 \<le> col"
    by (auto simp: set_grid)
  from names nonneg under dist inj str_decimal show ?thesis
    by blast
qed

theorem C5_witness:
  "cut_image_into_squares ''sheet.png'' 2 ''out'' studio = (Inr (), studio_after)
   \<and> map fst (saves (new_events studio studio_after)) =
       [''out/square_0_0.png'', ''out/square_0_1.png'', ''out/square_1_0.png'', ''out/square_1_1.png'']
   \<and> distinct (map fst (saves (new_events studio studio_after)))
   \<and> decimal_value (str 12) = 12"
proof -
  note run = C5_tile_names [OF disjI1 [OF refl] studio_open studio_run]
  from run have "map fst (saves (new_events studio studio_after)) =
      map (\<lambda>(row, col). path_join ''out'' (''square_'' @ str row @ ''_'' @ str col @ ''.png''))
          (grid sheet 2)"
    by (rule conjunct1)
  also have "\<dots> = [''out/square_0_0.png'', ''out/square_0_1.png'', ''out/square_1_0.png'', ''out/square_1_1.png'']"
    by code_simp
  finally have names: "map fst (saves (new_events studio studio_after)) =
      [''out/square_0_0.png'', ''out/square_0_1.png'', ''out/square_1_0.png'', ''out/square_1_1.png'']" .
  from run have "distinct (map fst (saves (new_events studio studio_after)))"
    by blast
  moreover from run have "decimal_value (str 12) = nat 12"
    by (metis zero_le_numeral)
  ultimately show ?thesis
    using names studio_run by simp
qed

subsection \<open>Order of the writes\<close>

text \<open>
  C6. The tiles are written in row-major order. A successful run writes exactly the
  tiles \<open>(0, 0)\<close>, \<open>(0, 1)\<close>, ..., \<open>(0, columns - 1)\<close>, \<open>(1, 0)\<close>, ...,
  \<open>(rows - 1, columns - 1)\<close> in this order; the \<open>k\<close>-th write of any run is tile
  \<open>(k div columns, k mod columns)\<close>; and a run that ends in an error has written an
  initial part of that sequence.
\<close>

theorem C6_row_major_order:
  assumes "tiler = cut_image_into_squares \<or> tiler = cut_image_into_squares_argv"
      and "image_open path w = Inr img"
      and "tiler path s dest w = (r, w')"
  shows "(r = Inr () \<longrightarrow>
            saves (new_events w w') =
              map (\<lambda>(row, col). (path_join dest (file_name row col), crop img (square_box s row col)))
                  (row_major (height img div s) (width img div s)))
       \<and> (\<exists>k. saves (new_events w w') =
              take k (map (\<lambda>(row, col). (path_join dest (file_name row col), crop img (square_box s row col)))
                          (row_major (height img div s) (width img div s))))
       \<and> (\<forall>k < length (saves (new_events w w')).
            saves (new_events w w') ! k =
              (path_join dest (file_name (int k div (width img div s)) (int k mod (width img div s))),
               crop img (square_box s (int k div (width img div s)) (int k mod (width img div s)))))"
proof -
  let ?tile = "\<lambda>(row, col). (path_join dest (file_name row col), crop img (square_box s row col))"
  have tile: "(\<lambda>ji. (tile_path dest ji, tile_image img s ji)) = ?tile"
    by (auto simp: tile_path_def tile_image_def fun_eq_iff)
  have whole: "r = Inr () \<longrightarrow> saves (new_events w w') = map ?tile (row_major (height img div s) (width img div s))"
  proof
    assume "r = Inr ()"
    with assms(3) have "tiler path s dest w = (Inr (), w')" by simp
    from run_saves [OF assms(1,2) this] show "saves (new_events w w') = map ?tile (row_major (height img div s) (width img div s))"
      by (simp add: tile grid_row_major)
  qed
  from tiler_any_saves [OF assms] obtain k where
    k: "saves (new_events w w') = take k (map ?tile (grid img s))"
    by (auto simp: tile)
  then have part: "\<exists>k. saves (new_events w w') = take k (map ?tile (row_major (height img div s) (width img div s)))"
    by (auto simp: grid_row_major)
  have nth: "\<forall>j < length (saves (new_events w w')). saves (new_events w w') ! j =
              (path_join dest (file_name (int j div (width img div s)) (int j mod (width img div s))),
               crop img (square_box s (int j div (width img div s)) (int j mod (width img div s))))"
  proof (intro allI impI)
    fix j
    assume "j < length (saves (new_events w w'))"
    with k have j: "j < k" "j < length (grid img s)" by simp_all
    with k have "saves (new_events w w') ! j = ?tile (grid img s ! j)" by simp
    with grid_nth [OF j(2)] show "saves (new_events w w') ! j =
              (path_join dest (file_name (int j div (width img div s)) (int j mod (width img div s))),
               crop img (square_box s (int j div (width img div s)) (int j mod (width img div s))))"
      by simp
  qed
  from whole part nth show ?thesis by blast
qed

theorem C6_witness:
  "cut_image_into_squares ''sheet.png'' 2 ''out'' studio = (Inr (), studio_after)
   \<and> map fst (saves (new_events studio studio_after)) =
       [''out/square_0_0.png'', ''out/square_0_1.png'', ''out/square_1_0.png'', ''out/square_1_1.png'']
   \<and> fst (saves (new_events studio studio_after) ! 2) = ''out/square_1_0.png''"
proof -
  note run = C6_row_major_order [OF disjI1 [OF refl] studio_open studio_run]
  from run have "saves (new_events studio studio_after) =
      map (\<lambda>(row, col). (path_join ''out'' (file_name row col), crop sheet (square_box 2 row col)))
          (row_major (height sheet div 2) (width sheet div 2))"
    by blast
  then have "map fst (saves (new_events studio studio_after)) =
      map fst (map (\<lambda>(row, col). (path_join ''out'' (file_name row col), crop sheet (square_box 2 row col)))
          (row_major (height sheet div 2) (width sheet div 2)))"
    by simp
  also have "\<dots> = [''out/square_0_0.png'', ''out/square_0_1.png'', ''out/square_1_0.png'', ''out/square_1_1.png'']"
    by code_simp
  finally have names: "map fst (saves (new_events studio studio_after)) =
      [''out/square_0_0.png'', ''out/square_0_1.png'', ''out/square_1_0.png'', ''out/square_1_1.png'']" .
  from names have "length (map fst (saves (new_events studio studio_after))) = 4"
    by simp
  then have "2 < length (saves (new_events studio studio_after))" by simp
  then have "fst (saves (new_events studio studio_after) ! 2) =
      map fst (saves (new_events studio studio_after)) ! 2"
    by (rule nth_map [symmetric])
  with names have "fst (saves (new_events studio studio_after) ! 2) = ''out/square_1_0.png''"
    by simp
  with names studio_run show ?thesis by simp
qed

subsection \<open>Small images and exact fits\<close>

text \<open>
  C7. For a readable image whose width or height is smaller than a positive square
  size, and a destination folder that exists or can be created, the run returns normally
  and writes no tile. A square size equal to the width gives exactly one column (the
  tiles written are those of column 0, one per row), and a square size equal to the
  height gives exactly one row.
\<close>

theorem C7_small_image_and_exact_fit:
  assumes "tiler = cut_image_into_squares \<or> tiler = cut_image_into_squares_argv"
      and "image_open path w = Inr img"
      and "0 < s"
      and "path_exists dest w \<or> fst (makedirs dest w) = Inr ()"
  shows "(width img < s \<or> height img < s \<longrightarrow>
            fst (tiler path s dest w) = Inr ()
            \<and> saves (new_events w (snd (tiler path s dest w))) = [])
       \<and> (width img = s \<longrightarrow> width img div s = 1)
       \<and> (height img = s \<longrightarrow> height img div s = 1)
       \<and> (width img = s \<and> fst (tiler path s dest w) = Inr () \<longrightarrow>
            map fst (saves (new_events w (snd (tiler path s dest w)))) =
              map (\<lambda>row. path_join dest (file_name row 0)) (py_range (height img div s)))
       \<and> (height img = s \<and> fst (tiler path s dest w) = Inr () \<longrightarrow>
            map fst (saves (new_events w (snd (tiler path s dest w)))) =
              map (\<lambda>col. path_join dest (file_name 0 col)) (py_range (width img div s)))"
proof -
  from assms(2) have wf: "0 \<le> width img" "0 \<le> height img"
    by (simp_all add: image_open_Inr [unfolded wf_image_def])
  have sv: "saves (new_events w (snd (tiler path s dest w))) =
      map (\<lambda>ji. (tile_path dest ji, tile_image img s ji)) (grid img s)"
    if "fst (tiler path s dest w) = Inr ()"
  proof -
    from that have "tiler path s dest w = (Inr (), snd (tiler path s dest w))"
      by (simp add: prod_eq_iff)
    with assms(1,2) show ?thesis by (rule run_saves)
  qed
  have small: "width img < s \<or> height img < s \<longrightarrow>
            fst (tiler path s dest w) = Inr ()
            \<and> saves (new_events w (snd (tiler path s dest w))) = []"
  proof
    assume "width img < s \<or> height img < s"
    with wf have "width img div s = 0 \<or> height img div s = 0" by auto
    then have empty: "grid img s = []" by (auto intro: grid_empty)
    with assms have ok: "fst (tiler path s dest w) = Inr ()"
      by (intro tiler_succeeds [where img = img]) auto
    with sv empty show "fst (tiler path s dest w) = Inr ()
            \<and> saves (new_events w (snd (tiler path s dest w))) = []"
      by simp
  qed
  from assms(3) have one: "width img = s \<longrightarrow> width img div s = 1" "height img = s \<longrightarrow> height img div s = 1"
    by auto
  have col: "width img = s \<and> fst (tiler path s dest w) = Inr () \<longrightarrow>
            map fst (saves (new_events w (snd (tiler path s dest w)))) =
              map (\<lambda>row. path_join dest (file_name row 0)) (py_range (height img div s))"
    using sv one(1) by (auto simp: grid_one_column tile_path_def comp_def)
  have row: "height img = s \<and> fst (tiler path s dest w) = Inr () \<longrightarrow>
            map fst (saves (new_events w (snd (tiler path s dest w)))) =
              map (\<lambda>col. path_join dest (file_name 0 col)) (py_range (width img div s))"
    using sv one(2) by (auto simp: grid_one_row tile_path_def comp_def)
  from small one col row show ?thesis by blast
qed

theorem C7_witness:
  "fst (cut_image_into_squares ''sheet.png'' 7 ''out'' studio) = Inr ()
   \<and> saves (new_events studio (snd (cut_image_into_squares ''sheet.png'' 7 ''out'' studio))) = []
   \<and> width sheet div 5 = 1
   \<and> map fst (saves (new_events studio (snd (cut_image_into_squares ''sheet.png'' 5 ''out'' studio)))) =
       [''out/square_0_0.png'']"
proof -
  have made: "path_exists ''out'' studio \<or> fst (makedirs ''out'' studio) = Inr ()"
    using studio_makedirs by simp
  have seven: "(0::int) < 7" and five: "(0::int) < 5" by simp_all
  note small = C7_small_image_and_exact_fit [OF disjI1 [OF refl] studio_open seven made]
  note fit = C7_small_image_and_exact_fit [OF disjI1 [OF refl] studio_open five made]
  have w: "width sheet = 5" "height sheet = 5" by (simp_all add: sheet_def)
  from small w have "fst (cut_image_into_squares ''sheet.png'' 7 ''out'' studio) = Inr ()
      \<and> saves (new_events studio (snd (cut_image_into_squares ''sheet.png'' 7 ''out'' studio))) = []"
    by simp
  moreover from fit w have "width sheet div 5 = 1" by simp
  moreover have "fst (cut_image_into_squares ''sheet.png'' 5 ''out'' studio) = Inr ()"
    by code_simp
  with fit w have "map fst (saves (new_events studio (snd (cut_image_into_squares ''sheet.png'' 5 ''out'' studio)))) =
      map (\<lambda>row. path_join ''out'' (file_name row 0)) (py_range (height sheet div 5))"
    by simp
  moreover have "map (\<lambda>row. path_join ''out'' (file_name row 0)) (py_range (height sheet div 5)) =
      [''out/square_0_0.png'']"
    by code_simp
  ultimately show ?thesis by simp
qed

subsection \<open>Usage and success messages\<close>

text \<open>
  C8. In the argument-driven script, every argument vector whose length is not 4 (the
  script name and three user arguments) makes the program print the usage message and
  exit with status 1, with nothing else done; and every run that returns normally, of
  the program or of its \<open>cut_image_into_squares\<close>, has printed
  \<open>Images successfully applied to folder.\<close> as its last effect.
\<close>

theorem C8_usage_and_success_message:
  "(length argv \<noteq> 4 \<longrightarrow>
      main argv w =
        (Inl (SystemExit 1),
         w\<lparr>trace := trace w @
            [Print ''Usage: script.py <image_path> <square_size> <destination_folder>'']\<rparr>))
   \<and> (main argv w = (Inr (), w') \<longrightarrow>
        new_events w w' \<noteq> [] \<and>
        last (new_events w w') = Print ''Images successfully applied to folder.'')
   \<and> (cut_image_into_squares_argv path s dest w = (Inr (), w') \<longrightarrow>
        new_events w w' \<noteq> [] \<and>
        last (new_events w w') = Print ''Images successfully applied to folder.'')"
proof -
  have usage: "length argv \<noteq> 4 \<longrightarrow>
      main argv w =
        (Inl (SystemExit 1),
         w\<lparr>trace := trace w @
            [Print ''Usage: script.py <image_path> <square_size> <destination_folder>'']\<rparr>)"
    by (simp add: main_def print_def usage_message_def)
  have cut: "new_events v v' \<noteq> [] \<and> last (new_events v v') = Print ''Images successfully applied to folder.''"
    if "cut_image_into_squares_argv p n d v = (Inr (), v')" for p n d and v v' :: "'a world"
    using argv_success_prints [OF that] by (simp add: success_message_def)
  have "main argv w = (Inr (), w') \<longrightarrow>
        new_events w w' \<noteq> [] \<and>
        last (new_events w w') = Print ''Images successfully applied to folder.''"
  proof
    assume m: "main argv w = (Inr (), w')"
    then have "length argv = 4" by (auto simp: main_def split: if_splits)
    with m obtain n where "cut_image_into_squares_argv (argv ! 1) n (argv ! 3) w = (Inr (), w')"
      by (auto simp: main_def Let_def split: option.splits)
    then show "new_events w w' \<noteq> [] \<and>
        last (new_events w w') = Print ''Images successfully applied to folder.''"
      by (rule cut)
  qed
  with usage cut show ?thesis by blast
qed

theorem C8_witness:
  "main [''script.py'', ''sheet.png'', ''2''] studio =
     (Inl (SystemExit 1),
      studio\<lparr>trace := [Print ''Usage: script.py <image_path> <square_size> <destination_folder>'']\<rparr>)
   \<and> fst (main [''script.py'', ''sheet.png'', ''2'', ''out''] studio) = Inr ()
   \<and> last (trace (snd (main [''script.py'', ''sheet.png'', ''2'', ''out''] studio))) =
       Print ''Images successfully applied to folder.''"
proof -
  have ok: "fst (main [''script.py'', ''sheet.png'', ''2'', ''out''] studio) = Inr ()"
    by code_simp
  then have run: "main [''script.py'', ''sheet.png'', ''2'', ''out''] studio =
      (Inr (), snd (main [''script.py'', ''sheet.png'', ''2'', ''out''] studio))"
    by (simp add: prod_eq_iff)
  have empty: "trace studio = []" by (simp add: studio_def)
  from C8_usage_and_success_message [of "[''script.py'', ''sheet.png'', ''2'']" studio]
  have "main [''script.py'', ''sheet.png'', ''2''] studio =
     (Inl (SystemExit 1),
      studio\<lparr>trace := [Print ''Usage: script.py <image_path> <square_size> <destination_folder>'']\<rparr>)"
    by (simp add: empty)
  moreover from C8_usage_and_success_message [of "[''script.py'', ''sheet.png'', ''2'', ''out'']" studio
      "snd (main [''script.py'', ''sheet.png'', ''2'', ''out''] studio)"] run
  have "last (trace (snd (main [''script.py'', ''sheet.png'', ''2'', ''out''] studio))) =
       Print ''Images successfully applied to folder.''"
    by (simp add: new_events_def empty)
  ultimately show ?thesis using ok by simp
qed

subsection \<open>Running the tiler twice\<close>

text \<open>
  C9. The tiler is deterministic and idempotent. After a successful run into a
  destination folder that had no entries, a second run on the same arguments also
  returns normally, writes the same sequence of file names with the same contents, and
  leaves the file system exactly as the first run left it. Any other successful run on a
  world where the image path holds the same image writes that same sequence too.
\<close>

theorem C9_rerun_idempotent:
  assumes "tiler = cut_image_into_squares \<or> tiler = cut_image_into_squares_argv"
      and "tiler path s dest w = (Inr (), w1)"
      and "\<forall>q. dirname q = strip_sep dest \<longrightarrow> nodes w q = None"
  shows "fst (tiler path s dest w1) = Inr ()
       \<and> nodes (snd (tiler path s dest w1)) = nodes w1
       \<and> saves (new_events w1 (snd (tiler path s dest w1))) = saves (new_events w w1)
       \<and> (\<forall>v v'. image_open path v = image_open path w \<and> tiler path s dest v = (Inr (), v') \<longrightarrow>
            saves (new_events v v') = saves (new_events w w1))"
proof -
  from tiler_run [OF assms(1,2)] obtain img where
    open1: "image_open path w = Inr img" and s: "s \<noteq> 0"
    and made: "path_exists dest w \<or> fst (makedirs dest w) = Inr ()"
    and ok1: "\<forall>ji\<in>set (grid img s). save_ok (prepared dest w) (tile_path dest ji)"
    and nodes1: "nodes w1 = nodes (prepared dest w) ++ map_of (rev (tile_files img s dest))"
    and den1: "denied w1 = denied w"
    by blast
  let ?T = "map_of (rev (tile_files img s dest))"
  note prep = prepared_dest [OF made]
  from open1 have src: "nodes w path = Some (ImageFile img)" and wf: "wf_image img"
    by (simp_all add: image_open_Inr)
  have "\<forall>ji\<in>set (grid img s). path \<noteq> tile_path dest ji"
  proof
    fix ji
    from assms(3) have "nodes w (tile_path dest ji) = None"
      by (simp add: dirname_tile_path)
    with src show "path \<noteq> tile_path dest ji" by auto
  qed
  then have "?T path = None" by (rule tile_files_other)
  moreover have "nodes (prepared dest w) path = nodes w path"
  proof (cases "path_exists dest w")
    case True
    then show ?thesis by (simp add: prepared_def)
  next
    case False
    with prep(5) src have "path \<noteq> strip_sep dest" by auto
    with False prep(4) show ?thesis by simp
  qed
  ultimately have "nodes w1 path = Some (ImageFile img)"
    using nodes1 src by (simp add: map_add_def)
  with wf have open2: "image_open path w1 = Inr img"
    by (simp add: image_open_def)
  note node = run_dest_node [OF assms(1,2)]
  from node prep(2) have exists1: "path_exists dest w1"
    by (simp add: path_exists_def)
  then have prep1: "prepared dest w1 = w1" by (simp add: prepared_def)
  have ok2: "\<forall>ji\<in>set (grid img s). save_ok (prepared dest w1) (tile_path dest ji)"
  proof
    fix ji
    assume ji: "ji \<in> set (grid img s)"
    with ok1 have a: "save_ok (prepared dest w) (tile_path dest ji)" by blast
    from tile_files_lookup [OF ji, of dest] nodes1
    have "nodes w1 (tile_path dest ji) = Some (ImageFile (tile_image img s ji))"
      by (simp add: map_add_find_right)
    with a node den1 prep(6) show "save_ok (prepared dest w1) (tile_path dest ji)"
      by (simp add: prep1 save_ok_def dirname_tile_path)
  qed
  from exists1 have "path_exists dest w1 \<or> fst (makedirs dest w1) = Inr ()" ..
  with assms(1) open2 s have ok: "fst (tiler path s dest w1) = Inr ()"
    using ok2 by (rule tiler_succeeds)
  let ?w2 = "snd (tiler path s dest w1)"
  from ok have run2: "tiler path s dest w1 = (Inr (), ?w2)" by (simp add: prod_eq_iff)
  from tiler_run [OF assms(1) run2] open2
  have "nodes ?w2 = nodes (prepared dest w1) ++ ?T" by auto
  with nodes1 have same_nodes: "nodes ?w2 = nodes w1"
    by (simp add: prep1 map_add_twice)
  have sv: "saves (new_events w w1) = map (\<lambda>ji. (tile_path dest ji, tile_image img s ji)) (grid img s)"
    using assms(1) open1 assms(2) by (rule run_saves)
  have same_saves: "saves (new_events w1 ?w2) = saves (new_events w w1)"
    using run_saves [OF assms(1) open2 run2] sv by simp
  have other: "\<forall>v v'. image_open path v = image_open path w \<and> tiler path s dest v = (Inr (), v') \<longrightarrow>
            saves (new_events v v') = saves (new_events w w1)"
  proof (intro allI impI)
    fix v v'
    assume "image_open path v = image_open path w \<and> tiler path s dest v = (Inr (), v')"
    with open1 have "image_open path v = Inr img" "tiler path s dest v = (Inr (), v')" by simp_all
    from run_saves [OF assms(1) this] sv show "saves (new_events v v') = saves (new_events w w1)"
      by simp
  qed
  from ok same_nodes same_saves other show ?thesis by blast
qed

theorem C9_witness:
  "cut_image_into_squares ''sheet.png'' 2 ''out'' studio = (Inr (), studio_after)
   \<and> fst (cut_image_into_squares ''sheet.png'' 2 ''out'' studio_after) = Inr ()
   \<and> nodes (snd (cut_image_into_squares ''sheet.png'' 2 ''out'' studio_after)) = nodes studio_after
   \<and> saves (new_events studio_after (snd (cut_image_into_squares ''sheet.png'' 2 ''out'' studio_after))) =
       saves (new_events studio studio_after)"
proof -
  have differ: "dirname ''sheet.png'' \<noteq> strip_sep ''out''" by code_simp
  have empty: "\<forall>q. dirname q = strip_sep ''out'' \<longrightarrow> nodes studio q = None"
  proof (intro allI impI)
    fix q
    assume "dirname q = strip_sep ''out''"
    with differ have "q \<noteq> ''sheet.png''" by blast
    then show "nodes studio q = None" by (simp add: studio_def)
  qed
  note again = C9_rerun_idempotent [OF disjI1 [OF refl] studio_run empty]
  from again have "fst (cut_image_into_squares ''sheet.png'' 2 ''out'' studio_after) = Inr ()"
    by (rule conjunct1)
  moreover from again
  have "nodes (snd (cut_image_into_squares ''sheet.png'' 2 ''out'' studio_after)) = nodes studio_after"
    by (rule conjunct2 [THEN conjunct1])
  moreover from again
  have "saves (new_events studio_after (snd (cut_image_into_squares ''sheet.png'' 2 ''out'' studio_after))) =
       saves (new_events studio studio_after)"
    by (rule conjunct2 [THEN conjunct2, THEN conjunct1])
  ultimately show ?thesis
    using studio_run by blast
qed

subsection \<open>The destination folder after a run\<close>

text \<open>
  C10. After every successful run the destination path exists, also when
  no tile is produced. If it did not exist, it is created as a directory before the tile
  loop runs (the creation is the first effect of the run). It is a directory after the run
  whenever it was absent or a directory before, or at least one tile was written.
\<close>

theorem C10_destination_after_run:
  assumes "tiler = cut_image_into_squares \<or> tiler = cut_image_into_squares_argv"
      and "tiler path s dest w = (Inr (), w')"
  shows "path_exists dest w'
       \<and> (\<not> path_exists dest w \<longrightarrow> isdir dest w' \<and> hd (new_events w w') = MakeDirs dest)
       \<and> (isdir dest w \<longrightarrow> isdir dest w')
       \<and> (saves (new_events w w') \<noteq> [] \<longrightarrow> isdir dest w')"
proof -
  from tiler_run [OF assms] obtain img rest where
    made: "path_exists dest w \<or> fst (makedirs dest w) = Inr ()"
    and ok: "\<forall>ji\<in>set (grid img s). save_ok (prepared dest w) (tile_path dest ji)"
    and tr: "trace w' = trace w @ (if path_exists dest w then [] else [MakeDirs dest]) @ tile_events img s dest @ rest"
    and rest: "rest = [] \<or> rest = [Print success_message]"
    by blast
  note node = run_dest_node [OF assms]
  note prep = prepared_dest [OF made]
  from node prep(2) have exists: "path_exists dest w'"
    by (simp add: path_exists_def)
  have absent: "\<not> path_exists dest w \<longrightarrow> isdir dest w' \<and> hd (new_events w w') = MakeDirs dest"
    using node prep(1,3) tr by (simp add: isdir_def new_events_def)
  have kept: "isdir dest w \<longrightarrow> isdir dest w'"
  proof
    assume d: "isdir dest w"
    then have "path_exists dest w" by (simp add: isdir_def path_exists_def)
    with node d show "isdir dest w'" by (simp add: prepared_def isdir_def)
  qed
  have written: "saves (new_events w w') \<noteq> [] \<longrightarrow> isdir dest w'"
  proof
    assume ne: "saves (new_events w w') \<noteq> []"
    from rest have "saves rest = []" by auto
    with tr have "saves (new_events w w') = map (\<lambda>ji. (tile_path dest ji, tile_image img s ji)) (grid img s)"
      by (intro tiler_saves [where pre = "if path_exists dest w then [] else [MakeDirs dest]" and rest = rest]) auto
    with ne obtain ji where "ji \<in> set (grid img s)" by (cases "grid img s") auto
    with ok have "save_ok (prepared dest w) (tile_path dest ji)" by blast
    then have "strip_sep dest = [] \<or> nodes (prepared dest w) (strip_sep dest) = Some Directory"
      by (simp add: save_ok_def dirname_tile_path)
    with prep(1) have "nodes (prepared dest w) (strip_sep dest) = Some Directory"
      by (simp add: strip_sep_Nil)
    with node prep(1) show "isdir dest w'" by (simp add: isdir_def)
  qed
  from exists absent kept written show ?thesis by blast
qed

theorem C10_witness:
  "cut_image_into_squares ''sheet.png'' 2 ''out'' studio = (Inr (), studio_after)
   \<and> path_exists ''out'' studio_after \<and> isdir ''out'' studio_after
   \<and> hd (new_events studio studio_after) = MakeDirs ''out''"
proof -
  have "\<not> path_exists ''out'' studio" by code_simp
  with C10_destination_after_run [OF disjI1 [OF refl] studio_run] studio_run
  show ?thesis by simp
qed

theorem C10_counterexample:
  "fst (cut_image_into_squares ''sheet.png'' 7 ''sheet.png'' studio) = Inr ()
   \<and> \<not> isdir ''sheet.png'' (snd (cut_image_into_squares ''sheet.png'' 7 ''sheet.png'' studio))"
  by code_simp

end
